theory Spec2Isabelle
  imports Complex_Main "HOL-Library.Word" "HOL-Library.Signed_Division" "HOL-Library.Log_Nat"
begin

section \<open>Errors\<close>

text \<open>
  Go functions return an \<^verbatim>\<open>error\<close> next to their value. The model uses
  \<open>error + 'a\<close>: \<open>Inl e\<close> is a non-nil error, \<open>Inr v\<close> is the value with a nil
  error. For the waits, whose Go type is \<^verbatim>\<open>(bool, error)\<close>, \<open>Inr False\<close> is the
  pair \<^verbatim>\<open>(false, nil)\<close>, \<open>Inr True\<close> is \<^verbatim>\<open>(true, nil)\<close> and \<open>Inl e\<close> is
  \<^verbatim>\<open>(false, e)\<close>. Run-time panics are branches of the same type.

  \<open>ClientError\<close> is an error value handed back by an external client or service
  getter; the other constructors are the messages built with \<^verbatim>\<open>fmt.Errorf\<close> in the
  modelled functions, with the wrapped error (\<^verbatim>\<open>%w\<close>) as argument.
\<close>

datatype error =
    ClientError string
  | ErrGettingLatestELBlock error
  | ErrGettingBeaconBlock "64 word" error
  | ErrGettingLatestFinalizedSlot error
  | ErrGettingBeaconChainHead error
  | ErrGettingHeadSlot error
  | ErrNoExecutionClientsReady string string
  | ErrNoFallbackConfigured string
  | PanicDivideByZero
  | PanicNilDereference

section \<open>The parts of Go's time package the program uses\<close>

text \<open>
  A \<^verbatim>\<open>time.Duration\<close> is an \<^verbatim>\<open>int64\<close> count of nanoseconds. A
  \<^verbatim>\<open>time.Time\<close> is read through \<^verbatim>\<open>t.sec()\<close> (seconds since year 1),
  \<^verbatim>\<open>t.nsec()\<close> and, for values made by \<^verbatim>\<open>time.Now()\<close>, a monotonic clock
  reading in nanoseconds. \<^verbatim>\<open>time.Unix(sec, 0)\<close> stores \<^verbatim>\<open>sec + unixToInternal\<close>
  in an \<^verbatim>\<open>int64\<close>, so the sum wraps. \<^verbatim>\<open>t.Sub(u)\<close> is the difference of the
  two instants, replaced by the largest or smallest Duration when it does not fit;
  when both values carry a monotonic reading the difference is taken on those.
\<close>

definition int64 :: "int \<Rightarrow> int" where
  "int64 x = (x + 2 ^ 63) mod 2 ^ 64 - 2 ^ 63"

definition maxDuration :: int where
  "maxDuration = 2 ^ 63 - 1"

definition minDuration :: int where
  "minDuration = - (2 ^ 63)"

definition Second :: int where
  "Second = 1000000000"

definition unixToInternal :: int where
  "unixToInternal = 62135596800"

record go_time =
  sec :: int
  nsec :: int
  mono :: "int option"

text \<open>One reading of the system clock: wall-clock Unix seconds and nanoseconds, and the
  monotonic clock in nanoseconds.\<close>

record clock_reading =
  unix_sec :: int
  nanos :: int
  mono_ns :: int

definition time_Now :: "clock_reading \<Rightarrow> go_time" where
  "time_Now c = \<lparr>sec = unix_sec c + unixToInternal, nsec = nanos c, mono = Some (mono_ns c)\<rparr>"

definition time_Unix :: "int \<Rightarrow> go_time" where
  "time_Unix s = \<lparr>sec = int64 (s + unixToInternal), nsec = 0, mono = None\<rparr>"

definition saturate :: "int \<Rightarrow> int" where
  "saturate d = (if d > maxDuration then maxDuration else if d < minDuration then minDuration else d)"

definition Sub :: "go_time \<Rightarrow> go_time \<Rightarrow> int" where
  "Sub t u =
     (case (mono t, mono u) of
        (Some a, Some b) \<Rightarrow> saturate (a - b)
      | _ \<Rightarrow> saturate ((sec t - sec u) * Second + (nsec t - nsec u)))"

text \<open>\<^verbatim>\<open>time.Since(t)\<close> is \<^verbatim>\<open>time.Now().Sub(t)\<close>; the clock reading is an argument.\<close>

definition time_Since :: "clock_reading \<Rightarrow> go_time \<Rightarrow> int" where
  "time_Since now t = Sub (time_Now now) t"

text \<open>\<^verbatim>\<open>t.Unix()\<close>: seconds since the Unix epoch.\<close>

definition Unix :: "go_time \<Rightarrow> int" where
  "Unix t = int64 (sec t - unixToInternal)"

text \<open>
  A \<^verbatim>\<open>float64\<close> value is kept as the rational it stands for. \<open>float64 x\<close> rounds
  \<open>x\<close> to 53 significant bits, to the nearest value and to the even one of two nearest
  values, as every \<^verbatim>\<open>float64\<close> operation and the conversion from \<^verbatim>\<open>int64\<close> do. This
  is the rounding of the format for \<open>x\<close> in its normal range
  (\<open>2 powi (- 1022) \<le> \<bar>x\<bar> < 2 powi 1024\<close>); every non-zero value rounded in this program
  lies between \<open>10 powi (- 9)\<close> and \<open>2 ^ 63\<close> in absolute value.
\<close>

definition round_half_even :: "rat \<Rightarrow> int" where
  "round_half_even q =
     (let f = \<lfloor>q\<rfloor>; r = q - of_int f
      in if r < 1 / 2 then f else if 1 / 2 < r then f + 1 else if even f then f else f + 1)"

text \<open>The exponent \<open>e\<close> with \<open>2 powi e \<le> \<bar>x\<bar> < 2 powi (e + 1)\<close>, for \<open>x \<noteq> 0\<close>.\<close>

definition binary_exponent :: "rat \<Rightarrow> int" where
  "binary_exponent x =
     (let (p, q) = quotient_of \<bar>x\<bar>; e0 = bitlen p - bitlen q
      in if 2 powi e0 \<le> \<bar>x\<bar> then e0 else e0 - 1)"

definition float64 :: "rat \<Rightarrow> rat" where
  "float64 x =
     (if x = 0 then 0
      else (let u = 2 powi (binary_exponent x - 52)
            in of_int (round_half_even (x / u)) * u))"

text \<open>
  \<^verbatim>\<open>d.Seconds()\<close> is \<^verbatim>\<open>float64(sec) + float64(nsec) / 1e9\<close> with
  \<^verbatim>\<open>sec := d / Second\<close> and \<^verbatim>\<open>nsec := d % Second\<close>, Go's truncating \<open>/\<close> and
  \<open>%\<close>: two conversions, a division and an addition, each rounded.
\<close>

definition Seconds :: "int \<Rightarrow> rat" where
  "Seconds d =
     float64 (float64 (of_int (d sdiv Second))
              + float64 (float64 (of_int (d smod Second)) / 1000000000))"

text \<open>
  The conversion \<^verbatim>\<open>uint64(f)\<close> of a \<^verbatim>\<open>float64\<close> discards the fraction. When the
  truncated value is not a \<^verbatim>\<open>uint64\<close> the Go specification leaves the result to the
  implementation: \<open>impl\<close> is that part. amd64 converts through \<^verbatim>\<open>int64\<close> and
  reinterprets the bits (for values above \<open>- 2 ^ 63\<close>), arm64 saturates negative
  values to 0.
\<close>

definition truncate_rat :: "rat \<Rightarrow> int" where
  "truncate_rat x = (if 0 \<le> x then \<lfloor>x\<rfloor> else \<lceil>x\<rceil>)"

definition uint64_of_float64 :: "(rat \<Rightarrow> 64 word) \<Rightarrow> rat \<Rightarrow> 64 word" where
  "uint64_of_float64 impl x =
     (let n = truncate_rat x in if 0 \<le> n \<and> n < 2 ^ 64 then word_of_int n else impl x)"

definition amd64_conv :: "rat \<Rightarrow> 64 word" where
  "amd64_conv x = word_of_int (truncate_rat x)"

definition arm64_conv :: "rat \<Rightarrow> 64 word" where
  "arm64_conv x = (if x < 0 then 0 else - 1)"

section \<open>The network state manager\<close>

record Eth2Config =
  GenesisTime :: "64 word"
  SecondsPerSlot :: "64 word"
  SlotsPerEpoch :: "64 word"

record Header =
  Time :: "64 word"
  Number :: nat

record BeaconHead =
  FinalizedEpoch :: "64 word"

text \<open>
  The two clients and the state builder are outside the modelled files. What they answer
  is the environment: \<open>HeaderByNumber\<close> is the answer to
  \<^verbatim>\<open>ec.HeaderByNumber(ctx, nil)\<close>, \<open>GetBeaconBlock\<close> maps a slot (sent as its decimal
  string) to \<^verbatim>\<open>(block, exists, err)\<close>, and \<open>CreateNetworkState\<close> maps the slot to
  the built snapshot or the build's error.
\<close>

record ('blk, 'st) services =
  HeaderByNumber :: "error + Header"
  GetEth2Config :: "error + Eth2Config"
  GetBeaconHead :: "error + BeaconHead"
  GetBeaconBlock :: "64 word \<Rightarrow> error + ('blk \<times> bool)"
  CreateNetworkState :: "64 word \<Rightarrow> error + 'st"

record 'st NetworkStateManager =
  BeaconConfig :: Eth2Config
  latestState :: "'st option"

definition NewNetworkStateManager :: "('blk, 'st) services \<Rightarrow> error + 'st NetworkStateManager" where
  "NewNetworkStateManager sv =
     (case GetEth2Config sv of
        Inl err \<Rightarrow> Inl err
      | Inr cfg \<Rightarrow> Inr \<lparr>BeaconConfig = cfg, latestState = None\<rparr>)"

text \<open>The slot computation shared by GetHeadSlot and UpdateStateToHead (lines 108-111
  of manager.go, 142-145 of the older manager).\<close>

definition targetSlotOf :: "(rat \<Rightarrow> 64 word) \<Rightarrow> Eth2Config \<Rightarrow> Header \<Rightarrow> error + 64 word" where
  "targetSlotOf impl cfg latestBlockHeader =
     (let latestBlockTime = time_Unix (sint (Time latestBlockHeader));
          genesisTime = time_Unix (sint (GenesisTime cfg));
          secondsSinceGenesis = uint64_of_float64 impl (Seconds (Sub latestBlockTime genesisTime))
      in if SecondsPerSlot cfg = 0 then Inl PanicDivideByZero
         else Inr (secondsSinceGenesis div SecondsPerSlot cfg))"

definition GetHeadSlot ::
  "(rat \<Rightarrow> 64 word) \<Rightarrow> ('blk, 'st) services \<Rightarrow> 'st NetworkStateManager \<Rightarrow> error + 64 word" where
  "GetHeadSlot impl sv m =
     (case HeaderByNumber sv of
        Inl err \<Rightarrow> Inl (ErrGettingLatestELBlock err)
      | Inr latestBlockHeader \<Rightarrow> targetSlotOf impl (BeaconConfig m) latestBlockHeader)"

partial_function (option) GetLatestProposedBeaconBlock ::
  "(64 word \<Rightarrow> error + ('blk \<times> bool)) \<Rightarrow> 64 word \<Rightarrow> (error + 'blk) option" where
  "GetLatestProposedBeaconBlock bc targetSlot =
     (case bc targetSlot of
        Inl err \<Rightarrow> Some (Inl (ErrGettingBeaconBlock targetSlot err))
      | Inr (block, exists) \<Rightarrow>
          if \<not> exists then GetLatestProposedBeaconBlock bc (targetSlot - 1)
          else Some (Inr block))"

definition GetLatestBeaconBlock ::
  "(rat \<Rightarrow> 64 word) \<Rightarrow> ('blk, 'st) services \<Rightarrow> 'st NetworkStateManager \<Rightarrow> (error + 'blk) option" where
  "GetLatestBeaconBlock impl sv m =
     (case GetHeadSlot impl sv m of
        Inl err \<Rightarrow> Some (Inl (ErrGettingHeadSlot err))
      | Inr targetSlot \<Rightarrow> GetLatestProposedBeaconBlock (GetBeaconBlock sv) targetSlot)"

definition finalizedTargetSlot :: "Eth2Config \<Rightarrow> BeaconHead \<Rightarrow> 64 word" where
  "finalizedTargetSlot cfg head =
     FinalizedEpoch head * SlotsPerEpoch cfg + (SlotsPerEpoch cfg - 1)"

definition GetLatestFinalizedBeaconBlock ::
  "('blk, 'st) services \<Rightarrow> 'st NetworkStateManager \<Rightarrow> (error + 'blk) option" where
  "GetLatestFinalizedBeaconBlock sv m =
     (case GetBeaconHead sv of
        Inl err \<Rightarrow> Some (Inl (ErrGettingBeaconChainHead err))
      | Inr head \<Rightarrow>
          GetLatestProposedBeaconBlock (GetBeaconBlock sv) (finalizedTargetSlot (BeaconConfig m) head))"

subsection \<open>The older manager: the latest snapshot\<close>

text \<open>The functions return the manager next to their result, since updateState assigns
  \<^verbatim>\<open>m.latestState\<close>. The mutex only orders concurrent callers and is not modelled.\<close>

definition GetLatestState :: "'st NetworkStateManager \<Rightarrow> 'st option" where
  "GetLatestState m = latestState m"

definition updateState ::
  "('blk, 'st) services \<Rightarrow> 'st NetworkStateManager \<Rightarrow> 64 word \<Rightarrow> (error + 'st) \<times> 'st NetworkStateManager" where
  "updateState sv m slotNumber =
     (case CreateNetworkState sv slotNumber of
        Inl err \<Rightarrow> (Inl err, m)
      | Inr state \<Rightarrow> (Inr state, m\<lparr>latestState := Some state\<rparr>))"

definition UpdateStateToSlot ::
  "('blk, 'st) services \<Rightarrow> 'st NetworkStateManager \<Rightarrow> 64 word \<Rightarrow> (error + 'st) \<times> 'st NetworkStateManager" where
  "UpdateStateToSlot sv m slotNumber = updateState sv m slotNumber"

definition UpdateStateToHead ::
  "(rat \<Rightarrow> 64 word) \<Rightarrow> ('blk, 'st) services \<Rightarrow> 'st NetworkStateManager \<Rightarrow> (error + 'st) \<times> 'st NetworkStateManager" where
  "UpdateStateToHead impl sv m =
     (case HeaderByNumber sv of
        Inl err \<Rightarrow> (Inl (ErrGettingLatestELBlock err), m)
      | Inr latestBlockHeader \<Rightarrow>
          (case targetSlotOf impl (BeaconConfig m) latestBlockHeader of
             Inl p \<Rightarrow> (Inl p, m)
           | Inr targetSlot \<Rightarrow> updateState sv m targetSlot))"

text \<open>The loop of UpdateStateToFinalized (lines 161-175 of the older manager).\<close>

partial_function (option) UpdateStateToFinalized_loop ::
  "('blk, 'st) services \<Rightarrow> 'st NetworkStateManager \<Rightarrow> 64 word \<Rightarrow>
     ((error + 'st) \<times> 'st NetworkStateManager) option" where
  "UpdateStateToFinalized_loop sv m targetSlot =
     (case GetBeaconBlock sv targetSlot of
        Inl err \<Rightarrow> Some (Inl (ErrGettingBeaconBlock targetSlot err), m)
      | Inr (block, exists) \<Rightarrow>
          if \<not> exists then UpdateStateToFinalized_loop sv m (targetSlot - 1)
          else Some (updateState sv m targetSlot))"

definition UpdateStateToFinalized ::
  "('blk, 'st) services \<Rightarrow> 'st NetworkStateManager \<Rightarrow> ((error + 'st) \<times> 'st NetworkStateManager) option" where
  "UpdateStateToFinalized sv m =
     (case GetBeaconHead sv of
        Inl err \<Rightarrow> Some (Inl (ErrGettingLatestFinalizedSlot err), m)
      | Inr head \<Rightarrow> UpdateStateToFinalized_loop sv m (finalizedTargetSlot (BeaconConfig m) head))"

section \<open>Waiting for the clients to sync\<close>

definition EthClientSyncTimeout :: int where
  "EthClientSyncTimeout = 16"

definition BeaconClientSyncTimeout :: int where
  "BeaconClientSyncTimeout = 16"

definition ethClientRecentBlockThreshold :: int where
  "ethClientRecentBlockThreshold = 300 * Second"

definition ethClientStatusRefreshInterval :: int where
  "ethClientStatusRefreshInterval = 60 * Second"

subsection \<open>checkExecutionClientStatus\<close>

record ClientStatus =
  IsWorking :: bool
  SyncProgress :: rat
  Error :: string

record ClientManagerStatus =
  PrimaryEcStatus :: ClientStatus
  FallbackEnabled :: bool
  FallbackEcStatus :: ClientStatus

text \<open>The two client handles of the manager, \<^verbatim>\<open>ecMgr.primaryEc\<close> and
  \<^verbatim>\<open>ecMgr.fallbackEc\<close>; a \<^verbatim>\<open>nil\<close> client is \<open>None\<close>.\<close>

datatype ec_handle = primaryEc | fallbackEc

text \<open>
  \<^verbatim>\<open>ecMgr.CheckStatus()\<close> is outside the modelled files. One call of it is the
  status it returns together with the two flags it leaves in the manager.
\<close>

record ExecutionClientManager =
  mgrStatus :: ClientManagerStatus
  primaryReady :: bool
  fallbackReady :: bool

definition checkExecutionClientStatus ::
  "ExecutionClientManager \<Rightarrow> error + (bool \<times> ec_handle option)" where
  "checkExecutionClientStatus ecMgr =
     (if primaryReady ecMgr then Inr (True, None)
      else if fallbackReady ecMgr then Inr (True, None)
      else if IsWorking (PrimaryEcStatus (mgrStatus ecMgr))
              \<and> Error (PrimaryEcStatus (mgrStatus ecMgr)) = []
        then Inr (False, Some primaryEc)
      else if FallbackEnabled (mgrStatus ecMgr)
              \<and> IsWorking (FallbackEcStatus (mgrStatus ecMgr))
              \<and> Error (FallbackEcStatus (mgrStatus ecMgr)) = []
        then Inr (False, Some fallbackEc)
      else if FallbackEnabled (mgrStatus ecMgr)
        then Inl (ErrNoExecutionClientsReady
                    (Error (PrimaryEcStatus (mgrStatus ecMgr)))
                    (Error (FallbackEcStatus (mgrStatus ecMgr))))
      else Inl (ErrNoFallbackConfigured (Error (PrimaryEcStatus (mgrStatus ecMgr)))))"

subsection \<open>IsSyncWithinThreshold\<close>

text \<open>\<open>latest\<close> is the answer of \<^verbatim>\<open>GetEthClientLatestBlockTimestamp(ec)\<close>, \<open>now\<close>
  the clock read by \<^verbatim>\<open>time.Since\<close>.\<close>

definition IsSyncWithinThreshold ::
  "error + 64 word \<Rightarrow> clock_reading \<Rightarrow> error + (bool \<times> go_time)" where
  "IsSyncWithinThreshold latest now =
     (case latest of
        Inl err \<Rightarrow> Inl err
      | Inr timestamp \<Rightarrow>
          (let blockTime = time_Unix (sint timestamp)
           in if time_Since now blockTime < ethClientRecentBlockThreshold
              then Inr (True, blockTime)
              else Inr (False, blockTime)))"

subsection \<open>waitEthClientSynced\<close>

record EthSyncProgress =
  CurrentBlock :: "64 word"
  StartingBlock :: "64 word"
  HighestBlock :: "64 word"

text \<open>
  One pass of the loop can read the clock four times and ask the client two questions.
  \<open>eth_poll\<close> holds what each of them would answer in that pass: the clock at the
  timeout check (line 429), at the refresh check (line 434) and at line 436, the outcome of
  CheckStatus at line 437, the answer of \<^verbatim>\<open>SyncProgress\<close> for either client
  (\<open>None\<close> is a nil progress object), the latest block timestamp of either client and
  the clock read inside IsSyncWithinThreshold. Log lines and the pause between two passes
  do not change any returned value and are left out.
\<close>

record eth_poll =
  clk_timeout :: clock_reading
  clk_refresh_check :: clock_reading
  clk_refresh :: clock_reading
  refresh_status :: ExecutionClientManager
  SyncProgress_of :: "ec_handle \<Rightarrow> error + EthSyncProgress option"
  LatestBlockTimestamp_of :: "ec_handle \<Rightarrow> error + 64 word"
  clk_threshold :: clock_reading

record eth_world =
  GetEthClient :: "error + unit"
  initial_status :: ExecutionClientManager
  clk_start :: clock_reading
  eth_polls :: "nat \<Rightarrow> eth_poll"

text \<open>One pass of a loop either returns from the function or goes on to the next pass.\<close>

datatype ('r, 's) step = Return 'r | Continue 's

text \<open>The two variables the loop assigns.\<close>

record eth_loop_state =
  ecRefreshTime :: go_time
  clientToCheck :: "ec_handle option"

text \<open>Lines 433-444: the status is checked again when the last check is more than the
  refresh interval old.\<close>

definition refreshStatus ::
  "eth_poll \<Rightarrow> eth_loop_state \<Rightarrow> (error + bool, eth_loop_state) step" where
  "refreshStatus p st =
     (if time_Since (clk_refresh_check p) (ecRefreshTime st) > ethClientStatusRefreshInterval
      then (case checkExecutionClientStatus (refresh_status p) of
              Inl err \<Rightarrow> Return (Inl err)
            | Inr (synced, c) \<Rightarrow>
                if synced then Return (Inr True)
                else Continue \<lparr>ecRefreshTime = time_Now (clk_refresh p), clientToCheck = c\<rparr>)
      else Continue st)"

text \<open>Lines 446-473: the sync progress of the client to check and, without a progress
  object, the recency test. Calling SyncProgress on a nil client panics.\<close>

definition checkProgress ::
  "eth_poll \<Rightarrow> eth_loop_state \<Rightarrow> (error + bool, eth_loop_state) step" where
  "checkProgress p st =
     (case clientToCheck st of
        None \<Rightarrow> Return (Inl PanicNilDereference)
      | Some c \<Rightarrow>
          (case SyncProgress_of p c of
             Inl err \<Rightarrow> Return (Inl err)
           | Inr (Some progress) \<Rightarrow> Continue st
           | Inr None \<Rightarrow>
               (case IsSyncWithinThreshold (LatestBlockTimestamp_of p c) (clk_threshold p) of
                  Inl err \<Rightarrow> Return (Inl err)
                | Inr (isUpToDate, blockTime) \<Rightarrow>
                    if isUpToDate then Return (Inr True) else Continue st)))"

text \<open>The body of the loop of waitEthClientSynced (lines 428-476). The timeout test
  compares two \<^verbatim>\<open>float64\<close> values, \<^verbatim>\<open>time.Since(startTime).Seconds()\<close> and
  \<^verbatim>\<open>float64(timeout)\<close>.\<close>

definition waitEth_body ::
  "int \<Rightarrow> go_time \<Rightarrow> eth_poll \<Rightarrow> eth_loop_state \<Rightarrow> (error + bool, eth_loop_state) step" where
  "waitEth_body timeout startTime p st =
     (if timeout > 0 \<and> Seconds (time_Since (clk_timeout p) startTime) > float64 (of_int timeout)
      then Return (Inr False)
      else (case refreshStatus p st of
              Return r \<Rightarrow> Return r
            | Continue st' \<Rightarrow> checkProgress p st'))"

partial_function (option) waitEth_loop ::
  "int \<Rightarrow> go_time \<Rightarrow> (nat \<Rightarrow> eth_poll) \<Rightarrow> nat \<Rightarrow> eth_loop_state \<Rightarrow> (error + bool) option" where
  "waitEth_loop timeout startTime polls i st =
     (case waitEth_body timeout startTime (polls i) st of
        Return r \<Rightarrow> Some r
      | Continue st' \<Rightarrow> waitEth_loop timeout startTime polls (Suc i) st')"

definition waitEthClientSynced :: "eth_world \<Rightarrow> bool \<Rightarrow> int \<Rightarrow> (error + bool) option" where
  "waitEthClientSynced w verbose timeout =
     (case GetEthClient w of
        Inl err \<Rightarrow> Some (Inl err)
      | Inr ecMgr \<Rightarrow>
          (case checkExecutionClientStatus (initial_status w) of
             Inl err \<Rightarrow> Some (Inl err)
           | Inr (synced, c) \<Rightarrow>
               if synced then Some (Inr True)
               else (let startTime = time_Now (clk_start w)
                     in waitEth_loop timeout startTime (eth_polls w) 0
                          \<lparr>ecRefreshTime = startTime, clientToCheck = c\<rparr>)))"

subsection \<open>waitBeaconClientSynced\<close>

record SyncStatus =
  Syncing :: bool
  Progress :: rat

record beacon_poll =
  clk_now :: clock_reading
  GetSyncStatus :: "error + SyncStatus"

record beacon_world =
  GetBeaconClient :: "error + unit"
  clk_start_b :: clock_reading
  beacon_polls :: "nat \<Rightarrow> beacon_poll"

text \<open>The body of the loop of waitBeaconClientSynced (lines 504-525); \<open>startTime\<close> is
  \<^verbatim>\<open>time.Now().Unix()\<close>, in seconds.\<close>

definition waitBeacon_body :: "int \<Rightarrow> int \<Rightarrow> beacon_poll \<Rightarrow> (error + bool, unit) step" where
  "waitBeacon_body timeout startTime p =
     (if timeout > 0 \<and> int64 (Unix (time_Now (clk_now p)) - startTime) > timeout
      then Return (Inr False)
      else (case GetSyncStatus p of
              Inl err \<Rightarrow> Return (Inl err)
            | Inr syncStatus \<Rightarrow>
                if Syncing syncStatus then Continue () else Return (Inr True)))"

partial_function (option) waitBeacon_loop ::
  "int \<Rightarrow> int \<Rightarrow> (nat \<Rightarrow> beacon_poll) \<Rightarrow> nat \<Rightarrow> (error + bool) option" where
  "waitBeacon_loop timeout startTime polls i =
     (case waitBeacon_body timeout startTime (polls i) of
        Return r \<Rightarrow> Some r
      | Continue u \<Rightarrow> waitBeacon_loop timeout startTime polls (Suc i))"

definition waitBeaconClientSynced :: "beacon_world \<Rightarrow> bool \<Rightarrow> int \<Rightarrow> (error + bool) option" where
  "waitBeaconClientSynced w verbose timeout =
     (case GetBeaconClient w of
        Inl err \<Rightarrow> Some (Inl err)
      | Inr bc \<Rightarrow>
          waitBeacon_loop timeout (Unix (time_Now (clk_start_b w))) (beacon_polls w) 0)"

subsection \<open>The passes of the two loops\<close>

text \<open>
  The state of the loop of waitEthClientSynced at the start of pass \<open>n\<close>, when the
  passes before it all went on to the next one; \<open>None\<close> when an earlier pass returned.
\<close>

primrec waitEth_state ::
  "int \<Rightarrow> go_time \<Rightarrow> (nat \<Rightarrow> eth_poll) \<Rightarrow> eth_loop_state \<Rightarrow> nat \<Rightarrow> eth_loop_state option" where
  "waitEth_state timeout startTime polls st0 0 = Some st0"
| "waitEth_state timeout startTime polls st0 (Suc n) =
     (case waitEth_state timeout startTime polls st0 n of
        None \<Rightarrow> None
      | Some st \<Rightarrow>
          (case waitEth_body timeout startTime (polls n) st of
             Return r \<Rightarrow> None
           | Continue st' \<Rightarrow> Some st'))"

text \<open>Pass \<open>n\<close> of the wait started in the world \<open>w\<close> is reached, in this state.\<close>

definition waitEth_reaches :: "eth_world \<Rightarrow> int \<Rightarrow> nat \<Rightarrow> eth_loop_state option" where
  "waitEth_reaches w timeout n =
     (case GetEthClient w of
        Inl err \<Rightarrow> None
      | Inr ecMgr \<Rightarrow>
          (case checkExecutionClientStatus (initial_status w) of
             Inl err \<Rightarrow> None
           | Inr (synced, c) \<Rightarrow>
               if synced then None
               else waitEth_state timeout (time_Now (clk_start w)) (eth_polls w)
                      \<lparr>ecRefreshTime = time_Now (clk_start w), clientToCheck = c\<rparr> n))"

definition waitBeacon_reaches :: "beacon_world \<Rightarrow> int \<Rightarrow> nat \<Rightarrow> bool" where
  "waitBeacon_reaches w timeout n =
     (case GetBeaconClient w of
        Inl err \<Rightarrow> False
      | Inr bc \<Rightarrow>
          (\<forall>j<n. waitBeacon_body timeout (Unix (time_Now (clk_start_b w))) (beacon_polls w j)
                    = Continue ()))"

section \<open>Predicates and concrete inputs of the statements\<close>

text \<open>The beacon client answered \<^verbatim>\<open>exists = false\<close> with a nil error.\<close>

definition slot_missing :: "error + ('blk \<times> bool) \<Rightarrow> bool" where
  "slot_missing r = (case r of Inl err \<Rightarrow> False | Inr (block, exists) \<Rightarrow> \<not> exists)"

text \<open>What a state update leaves in the manager: the returned snapshot when it returns one,
  the previous latest snapshot when it returns an error.\<close>

definition publishes ::
  "'st NetworkStateManager \<Rightarrow> (error + 'st) \<times> 'st NetworkStateManager \<Rightarrow> bool" where
  "publishes m res =
     (case fst res of
        Inl err \<Rightarrow> GetLatestState (snd res) = GetLatestState m
      | Inr state \<Rightarrow> GetLatestState (snd res) = Some state)"

text \<open>Beacon chains for the examples; a block is named by the number of its slot.\<close>

definition no_blocks :: "64 word \<Rightarrow> error + (nat \<times> bool)" where
  "no_blocks slot = Inr (0, False)"

definition blocks_up_to :: "64 word \<Rightarrow> 64 word \<Rightarrow> error + (nat \<times> bool)" where
  "blocks_up_to hi slot = (if slot \<le> hi then Inr (unat slot, True) else Inr (0, False))"

definition only_block_at :: "64 word \<Rightarrow> 64 word \<Rightarrow> error + (nat \<times> bool)" where
  "only_block_at r slot = (if slot = r then Inr (unat slot, True) else Inr (0, False))"

definition mainnet_config :: Eth2Config where
  "mainnet_config = \<lparr>GenesisTime = 1606824023, SecondsPerSlot = 12, SlotsPerEpoch = 32\<rparr>"

text \<open>Services whose latest execution block has timestamp \<open>t\<close>, whose beacon chain is
  \<open>bc\<close> and whose state builder succeeds on odd slots, with the slot as snapshot.\<close>

definition example_services ::
  "64 word \<Rightarrow> (64 word \<Rightarrow> error + (nat \<times> bool)) \<Rightarrow> (nat, 64 word) services" where
  "example_services t bc =
     \<lparr>HeaderByNumber = Inr \<lparr>Time = t, Number = 0\<rparr>,
      GetEth2Config = Inr mainnet_config,
      GetBeaconHead = Inr \<lparr>FinalizedEpoch = 0\<rparr>,
      GetBeaconBlock = bc,
      CreateNetworkState =
        (\<lambda>slot. if odd (unat slot) then Inr slot else Inl (ClientError ''build failed''))\<rparr>"

definition example_manager :: "64 word NetworkStateManager" where
  "example_manager = \<lparr>BeaconConfig = mainnet_config, latestState = None\<rparr>"

text \<open>The timeout tests of the two loops (lines 429 and 505), without \<^verbatim>\<open>timeout > 0\<close>.\<close>

definition eth_elapsed_exceeds :: "int \<Rightarrow> eth_world \<Rightarrow> nat \<Rightarrow> bool" where
  "eth_elapsed_exceeds timeout w i =
     (Seconds (time_Since (clk_timeout (eth_polls w i)) (time_Now (clk_start w)))
        > float64 (of_int timeout))"

definition beacon_elapsed_exceeds :: "int \<Rightarrow> beacon_world \<Rightarrow> nat \<Rightarrow> bool" where
  "beacon_elapsed_exceeds timeout w i =
     (int64 (Unix (time_Now (clk_now (beacon_polls w i))) - Unix (time_Now (clk_start_b w)))
        > timeout)"

text \<open>The time between the start of the execution wait and the timeout test of pass
  \<open>i\<close>, in nanoseconds of the monotonic clock, which \<^verbatim>\<open>time.Since\<close> reads here.\<close>

definition eth_elapsed_ns :: "eth_world \<Rightarrow> nat \<Rightarrow> int" where
  "eth_elapsed_ns w i = mono_ns (clk_timeout (eth_polls w i)) - mono_ns (clk_start w)"

text \<open>A reading of the wall clock in nanoseconds since the Unix epoch, and the time
  between the start of the beacon wait and the timeout test of pass \<open>i\<close> on the wall
  clock, which \<^verbatim>\<open>time.Now().Unix()\<close> reads.\<close>

definition wall_ns :: "clock_reading \<Rightarrow> int" where
  "wall_ns c = unix_sec c * 1000000000 + nanos c"

definition beacon_elapsed_ns :: "beacon_world \<Rightarrow> nat \<Rightarrow> int" where
  "beacon_elapsed_ns w i = wall_ns (clk_now (beacon_polls w i)) - wall_ns (clk_start_b w)"

text \<open>A wall clock reading after 1970 whose seconds are far from the ends of
  \<^verbatim>\<open>int64\<close> and whose nanoseconds lie within the second.\<close>

definition wall_clock_ok :: "clock_reading \<Rightarrow> bool" where
  "wall_clock_ok c =
     (0 \<le> unix_sec c \<and> unix_sec c < 2 ^ 62 \<and> 0 \<le> nanos c \<and> nanos c < 1000000000)"

text \<open>The status check finds no synced client and names a client to wait on.\<close>

definition waits_on_a_client :: "ExecutionClientManager \<Rightarrow> bool" where
  "waits_on_a_client ecMgr =
     (case checkExecutionClientStatus ecMgr of
        Inl err \<Rightarrow> False
      | Inr (synced, c) \<Rightarrow> \<not> synced \<and> c \<noteq> None)"

definition reports_progress :: "error + EthSyncProgress option \<Rightarrow> bool" where
  "reports_progress a = (case a of Inl err \<Rightarrow> False | Inr p \<Rightarrow> p \<noteq> None)"

text \<open>In this pass the execution clients are still syncing: a status refresh would find no
  synced client, and both clients answer SyncProgress with a progress object.\<close>

definition eth_still_syncing :: "eth_poll \<Rightarrow> bool" where
  "eth_still_syncing p =
     (waits_on_a_client (refresh_status p)
      \<and> reports_progress (SyncProgress_of p primaryEc)
      \<and> reports_progress (SyncProgress_of p fallbackEc))"

definition eth_starts_syncing :: "eth_world \<Rightarrow> bool" where
  "eth_starts_syncing w =
     ((case GetEthClient w of Inl err \<Rightarrow> False | Inr ecMgr \<Rightarrow> True)
      \<and> waits_on_a_client (initial_status w))"

definition beacon_still_syncing :: "beacon_poll \<Rightarrow> bool" where
  "beacon_still_syncing p = (case GetSyncStatus p of Inl err \<Rightarrow> False | Inr st \<Rightarrow> Syncing st)"

definition beacon_reports_synced :: "beacon_poll \<Rightarrow> bool" where
  "beacon_reports_synced p = (case GetSyncStatus p of Inl err \<Rightarrow> False | Inr st \<Rightarrow> \<not> Syncing st)"

text \<open>The age of a block stamped \<open>ts\<close> on the wall clock \<open>now\<close>, in nanoseconds.\<close>

definition block_age_ns :: "clock_reading \<Rightarrow> 64 word \<Rightarrow> int" where
  "block_age_ns now ts = (unix_sec now - uint ts) * 1000000000 + nanos now"

text \<open>Worlds for the examples: the wait starts at Unix time 1700000000, pass \<open>i\<close> of a loop
  runs \<open>5 * i\<close> seconds later.\<close>

definition clock_at :: "int \<Rightarrow> clock_reading" where
  "clock_at s = \<lparr>unix_sec = 1700000000 + s, nanos = 0, mono_ns = s * 1000000000\<rparr>"

definition primary_syncing :: ExecutionClientManager where
  "primary_syncing =
     \<lparr>mgrStatus =
        \<lparr>PrimaryEcStatus = \<lparr>IsWorking = True, SyncProgress = 2 / 5, Error = []\<rparr>,
         FallbackEnabled = False,
         FallbackEcStatus = \<lparr>IsWorking = False, SyncProgress = 0, Error = []\<rparr>\<rparr>,
      primaryReady = False, fallbackReady = False\<rparr>"

definition primary_synced_fallback_down :: ExecutionClientManager where
  "primary_synced_fallback_down =
     \<lparr>mgrStatus =
        \<lparr>PrimaryEcStatus = \<lparr>IsWorking = True, SyncProgress = 1, Error = []\<rparr>,
         FallbackEnabled = True,
         FallbackEcStatus = \<lparr>IsWorking = False, SyncProgress = 0, Error = ''connection refused''\<rparr>\<rparr>,
      primaryReady = True, fallbackReady = False\<rparr>"

definition some_progress :: EthSyncProgress where
  "some_progress = \<lparr>CurrentBlock = 400, StartingBlock = 0, HighestBlock = 1000\<rparr>"

definition eth_world_of ::
  "(nat \<Rightarrow> error + EthSyncProgress option) \<Rightarrow> (nat \<Rightarrow> error + 64 word) \<Rightarrow> eth_world" where
  "eth_world_of progress latest =
     \<lparr>GetEthClient = Inr (),
      initial_status = primary_syncing,
      clk_start = clock_at 0,
      eth_polls = (\<lambda>i.
        \<lparr>clk_timeout = clock_at (5 * int i),
         clk_refresh_check = clock_at (5 * int i),
         clk_refresh = clock_at (5 * int i),
         refresh_status = primary_syncing,
         SyncProgress_of = (\<lambda>c. progress i),
         LatestBlockTimestamp_of = (\<lambda>c. latest i),
         clk_threshold = clock_at (5 * int i)\<rparr>)\<rparr>"

definition beacon_world_of :: "(nat \<Rightarrow> error + SyncStatus) \<Rightarrow> beacon_world" where
  "beacon_world_of status =
     \<lparr>GetBeaconClient = Inr (),
      clk_start_b = clock_at 0,
      beacon_polls = (\<lambda>i. \<lparr>clk_now = clock_at (5 * int i), GetSyncStatus = status i\<rparr>)\<rparr>"

definition always_progress :: "nat \<Rightarrow> error + EthSyncProgress option" where
  "always_progress i = Inr (Some some_progress)"

definition progress_fails_at :: "nat \<Rightarrow> nat \<Rightarrow> error + EthSyncProgress option" where
  "progress_fails_at n i =
     (if i = n then Inl (ClientError ''connection reset'') else Inr (Some some_progress))"

definition progress_nil_at :: "nat \<Rightarrow> nat \<Rightarrow> error + EthSyncProgress option" where
  "progress_nil_at n i = (if i = n then Inr None else Inr (Some some_progress))"

definition latest_at :: "64 word \<Rightarrow> nat \<Rightarrow> error + 64 word" where
  "latest_at ts i = Inr ts"

definition latest_fails :: "nat \<Rightarrow> error + 64 word" where
  "latest_fails i = Inl (ClientError ''connection reset'')"

definition always_syncing :: "nat \<Rightarrow> error + SyncStatus" where
  "always_syncing i = Inr \<lparr>Syncing = True, Progress = 2 / 5\<rparr>"

definition synced_from :: "nat \<Rightarrow> nat \<Rightarrow> error + SyncStatus" where
  "synced_from n i = Inr \<lparr>Syncing = (i < n), Progress = 1\<rparr>"

definition status_fails_at :: "nat \<Rightarrow> nat \<Rightarrow> error + SyncStatus" where
  "status_fails_at n i =
     (if i = n then Inl (ClientError ''connection reset'')
      else Inr \<lparr>Syncing = True, Progress = 2 / 5\<rparr>)"

text \<open>The clock \<open>t\<close> nanoseconds after Unix time 1700000000.\<close>

definition clock_ns :: "int \<Rightarrow> clock_reading" where
  "clock_ns t =
     \<lparr>unix_sec = 1700000000 + t div 1000000000, nanos = t mod 1000000000, mono_ns = t\<rparr>"

text \<open>A beacon wait that starts 0.9 s into a second and runs a pass every 5.05 s, with a
  client that is always syncing.\<close>

definition beacon_world_late :: beacon_world where
  "beacon_world_late =
     \<lparr>GetBeaconClient = Inr (),
      clk_start_b = clock_ns 900000000,
      beacon_polls = (\<lambda>i.
        \<lparr>clk_now = clock_ns (900000000 + 5050000000 * int i),
         GetSyncStatus = always_syncing i\<rparr>)\<rparr>"

text \<open>An execution wait whose pass \<open>i\<close> runs \<open>5 * i\<close> seconds and one nanosecond
  after the start, with a primary client that is always syncing.\<close>

definition eth_world_late :: eth_world where
  "eth_world_late =
     \<lparr>GetEthClient = Inr (),
      initial_status = primary_syncing,
      clk_start = clock_ns 0,
      eth_polls = (\<lambda>i.
        \<lparr>clk_timeout = clock_ns (5000000000 * int i + 1),
         clk_refresh_check = clock_ns (5000000000 * int i + 1),
         clk_refresh = clock_ns (5000000000 * int i + 1),
         refresh_status = primary_syncing,
         SyncProgress_of = (\<lambda>c. always_progress i),
         LatestBlockTimestamp_of = (\<lambda>c. latest_at 0 i),
         clk_threshold = clock_ns (5000000000 * int i + 1)\<rparr>)\<rparr>"

section \<open>Stepping down through \<^verbatim>\<open>uint64\<close> slots\<close>

lemma unat_down:
  fixes s :: "64 word"
  assumes "j \<le> unat s"
  shows "unat (s - of_nat j) = unat s - j"
proof -
  have u: "unat (of_nat j :: 64 word) = j" using assms by (rule le_unat_uoi)
  then have "(of_nat j :: 64 word) \<le> s" using assms by (simp add: word_le_nat_alt)
  then have "unat (s - of_nat j) = unat s - unat (of_nat j :: 64 word)" by (rule unat_sub)
  with u show ?thesis by simp
qed

lemma word_down_reach:
  fixes r s :: "64 word"
  assumes "r \<le> s"
  shows "s - of_nat (unat s - unat r) = r"
proof -
  have le: "unat r \<le> unat s" using assms by (simp add: word_le_nat_alt)
  have "unat (s - of_nat (unat s - unat r)) = unat s - (unat s - unat r)"
    by (rule unat_down) simp
  with le have "unat (s - of_nat (unat s - unat r)) = unat r" by simp
  then show ?thesis by (rule word_unat_eq_iff[THEN iffD2])
qed

lemma word_down_le:
  fixes s :: "64 word"
  assumes "j \<le> unat s"
  shows "s - of_nat j \<le> s"
  using unat_down[OF assms] by (simp add: word_le_nat_alt)

lemma word_down_between:
  fixes r s :: "64 word"
  assumes "r \<le> s" "j < unat s - unat r"
  shows "r < s - of_nat j \<and> s - of_nat j \<le> s"
proof -
  have j: "j \<le> unat s" using assms(2) by simp
  have "unat (s - of_nat j) = unat s - j" using j by (rule unat_down)
  with assms(2) show ?thesis by (simp add: word_le_nat_alt word_less_nat_alt)
qed

lemma word_down_wrap:
  fixes s :: "64 word"
  shows "s - of_nat (Suc (unat s)) = - 1"
  by simp

lemma GLPBB_missing_step:
  "slot_missing (bc s) \<Longrightarrow>
   GetLatestProposedBeaconBlock bc s = GetLatestProposedBeaconBlock bc (s - 1)"
  by (subst GetLatestProposedBeaconBlock.simps)
     (auto simp: slot_missing_def split: sum.splits prod.splits)

lemma GLPBB_skip:
  "(\<forall>j<n. slot_missing (bc (s - of_nat j))) \<Longrightarrow>
   GetLatestProposedBeaconBlock bc s = GetLatestProposedBeaconBlock bc (s - of_nat n)"
proof (induction n)
  case 0
  then show ?case by simp
next
  case (Suc n)
  then have IH: "GetLatestProposedBeaconBlock bc s = GetLatestProposedBeaconBlock bc (s - of_nat n)"
    by simp
  from Suc.prems have "slot_missing (bc (s - of_nat n))" by simp
  then have "GetLatestProposedBeaconBlock bc (s - of_nat n) = GetLatestProposedBeaconBlock bc (s - of_nat n - 1)"
    by (rule GLPBB_missing_step)
  with IH show ?case by (simp add: algebra_simps)
qed

lemma GLPBB_Some_not_missing:
  fixes bc :: "64 word \<Rightarrow> error + ('blk \<times> bool)"
  assumes "GetLatestProposedBeaconBlock bc s = Some y"
  shows "\<exists>k. \<not> slot_missing (bc k)"
  using assms
proof (rule GetLatestProposedBeaconBlock.raw_induct
    [rotated 1, where P = "\<lambda>bc s y. \<exists>k. \<not> slot_missing (bc k)"])
  fix f :: "(64 word \<Rightarrow> error + ('blk \<times> bool)) \<Rightarrow> 64 word \<Rightarrow> (error + 'blk) option"
  fix bc s y
  assume IH: "\<And>bc s y. f bc s = Some y \<Longrightarrow> \<exists>k. \<not> slot_missing (bc k)"
  assume eq: "(case bc s of Inl err \<Rightarrow> Some (Inl (ErrGettingBeaconBlock s err))
      | Inr (block, exists) \<Rightarrow> if \<not> exists then f bc (s - 1) else Some (Inr block)) = Some y"
  show "\<exists>k. \<not> slot_missing (bc k)"
  proof (cases "slot_missing (bc s)")
    case True
    with eq have "f bc (s - 1) = Some y"
      by (auto simp: slot_missing_def split: sum.splits prod.splits if_splits)
    then show ?thesis by (rule IH)
  next
    case False
    then show ?thesis by blast
  qed
qed

lemma GLPBB_all_missing:
  assumes "\<forall>k. slot_missing (bc k)"
  shows "GetLatestProposedBeaconBlock bc s = None"
proof (cases "GetLatestProposedBeaconBlock bc s")
  case None
  then show ?thesis .
next
  case (Some y)
  from GLPBB_Some_not_missing[OF this] assms show ?thesis by blast
qed

lemma GLPBB_found:
  "bc s = Inr (b, True) \<Longrightarrow> GetLatestProposedBeaconBlock bc s = Some (Inr b)"
  by (subst GetLatestProposedBeaconBlock.simps) simp

lemma GLPBB_error:
  "bc s = Inl e \<Longrightarrow> GetLatestProposedBeaconBlock bc s = Some (Inl (ErrGettingBeaconBlock s e))"
  by (subst GetLatestProposedBeaconBlock.simps) simp

lemma GLPBB_not_missing:
  "\<not> slot_missing (bc s) \<Longrightarrow> GetLatestProposedBeaconBlock bc s \<noteq> None"
  by (subst GetLatestProposedBeaconBlock.simps)
     (auto simp: slot_missing_def split: sum.splits prod.splits)

lemma GLPBB_returns_iff:
  "GetLatestProposedBeaconBlock bc s \<noteq> None \<longleftrightarrow> (\<exists>k. \<not> slot_missing (bc k))"
proof
  assume "GetLatestProposedBeaconBlock bc s \<noteq> None"
  then obtain y where "GetLatestProposedBeaconBlock bc s = Some y" by (cases "GetLatestProposedBeaconBlock bc s") simp_all
  then show "\<exists>k. \<not> slot_missing (bc k)" by (rule GLPBB_Some_not_missing)
next
  assume "\<exists>k. \<not> slot_missing (bc k)"
  then obtain k where k: "\<not> slot_missing (bc k)" by blast
  have "s - of_nat (unat (s - k)) = k" by simp
  with k have "\<not> slot_missing (bc (s - of_nat (unat (s - k))))" by simp
  then have ex: "\<exists>n. \<not> slot_missing (bc (s - of_nat n))" by (rule exI)
  define n where "n = (LEAST n. \<not> slot_missing (bc (s - of_nat n)))"
  have n1: "\<not> slot_missing (bc (s - of_nat n))"
    unfolding n_def using ex by (rule LeastI_ex)
  have n2: "\<forall>j<n. slot_missing (bc (s - of_nat j))"
    unfolding n_def using not_less_Least by blast
  have "GetLatestProposedBeaconBlock bc s = GetLatestProposedBeaconBlock bc (s - of_nat n)"
    using n2 by (rule GLPBB_skip)
  also have "\<dots> \<noteq> None" using n1 by (rule GLPBB_not_missing)
  finally show "GetLatestProposedBeaconBlock bc s \<noteq> None" .
qed

lemma GLPBB_wrap:
  assumes "\<forall>k. k \<le> s \<longrightarrow> slot_missing (bc k)"
  shows "GetLatestProposedBeaconBlock bc s = GetLatestProposedBeaconBlock bc (- 1)"
proof -
  have "\<forall>j<Suc (unat s). slot_missing (bc (s - of_nat j))"
  proof (intro allI impI)
    fix j assume "j < Suc (unat s)"
    then have "s - of_nat j \<le> s"
      by (intro word_down_le) simp
    with assms show "slot_missing (bc (s - of_nat j))" by blast
  qed
  from GLPBB_skip[OF this] show ?thesis by (simp only: word_down_wrap)
qed

lemma GLPBB_nearest:
  assumes "r \<le> s" "bc r = Inr (b, True)" "\<forall>k. r < k \<and> k \<le> s \<longrightarrow> slot_missing (bc k)"
  shows "GetLatestProposedBeaconBlock bc s = Some (Inr b)"
proof -
  have "\<forall>j<unat s - unat r. slot_missing (bc (s - of_nat j))"
    using assms(3) word_down_between[OF assms(1)] by blast
  from GLPBB_skip[OF this] show ?thesis
    by (simp add: word_down_reach[OF assms(1)] GLPBB_found[of bc r b, OF assms(2)])
qed



lemma USTF_missing_step:
  "slot_missing (GetBeaconBlock sv s) \<Longrightarrow>
   UpdateStateToFinalized_loop sv m s = UpdateStateToFinalized_loop sv m (s - 1)"
  by (subst UpdateStateToFinalized_loop.simps)
     (auto simp: slot_missing_def split: sum.splits prod.splits)

lemma USTF_skip:
  "(\<forall>j<n. slot_missing (GetBeaconBlock sv (s - of_nat j))) \<Longrightarrow>
   UpdateStateToFinalized_loop sv m s = UpdateStateToFinalized_loop sv m (s - of_nat n)"
proof (induction n)
  case 0
  then show ?case by simp
next
  case (Suc n)
  then have IH: "UpdateStateToFinalized_loop sv m s = UpdateStateToFinalized_loop sv m (s - of_nat n)"
    by simp
  from Suc.prems have "slot_missing (GetBeaconBlock sv (s - of_nat n))" by simp
  then have "UpdateStateToFinalized_loop sv m (s - of_nat n)
      = UpdateStateToFinalized_loop sv m (s - of_nat n - 1)"
    by (rule USTF_missing_step)
  with IH show ?case by (simp add: algebra_simps)
qed

lemma USTF_found:
  "GetBeaconBlock sv s = Inr (b, True) \<Longrightarrow>
   UpdateStateToFinalized_loop sv m s = Some (updateState sv m s)"
  by (subst UpdateStateToFinalized_loop.simps) simp

lemma USTF_not_missing:
  "\<not> slot_missing (GetBeaconBlock sv s) \<Longrightarrow> UpdateStateToFinalized_loop sv m s \<noteq> None"
  by (subst UpdateStateToFinalized_loop.simps)
     (auto simp: slot_missing_def split: sum.splits prod.splits)

lemma USTF_Some_cases:
  fixes sv :: "('blk, 'st) services"
  assumes "UpdateStateToFinalized_loop sv m s = Some y"
  shows "\<exists>k. \<not> slot_missing (GetBeaconBlock sv k) \<and>
           (y = updateState sv m k \<or> (\<exists>e. y = (Inl (ErrGettingBeaconBlock k e), m)))"
  using assms
proof (rule UpdateStateToFinalized_loop.raw_induct
    [rotated 1, where P = "\<lambda>sv m s y. \<exists>k. \<not> slot_missing (GetBeaconBlock sv k) \<and>
           (y = updateState sv m k \<or> (\<exists>e. y = (Inl (ErrGettingBeaconBlock k e), m)))"])
  fix f :: "('blk, 'st) services \<Rightarrow> 'st NetworkStateManager \<Rightarrow> 64 word
              \<Rightarrow> ((error + 'st) \<times> 'st NetworkStateManager) option"
  fix sv m s y
  assume IH: "\<And>sv m s y. f sv m s = Some y \<Longrightarrow> \<exists>k. \<not> slot_missing (GetBeaconBlock sv k) \<and>
           (y = updateState sv m k \<or> (\<exists>e. y = (Inl (ErrGettingBeaconBlock k e), m)))"
  assume eq: "(case GetBeaconBlock sv s of
        Inl err \<Rightarrow> Some (Inl (ErrGettingBeaconBlock s err), m)
      | Inr (block, exists) \<Rightarrow>
          if \<not> exists then f sv m (s - 1) else Some (updateState sv m s)) = Some y"
  show "\<exists>k. \<not> slot_missing (GetBeaconBlock sv k) \<and>
           (y = updateState sv m k \<or> (\<exists>e. y = (Inl (ErrGettingBeaconBlock k e), m)))"
  proof (cases "slot_missing (GetBeaconBlock sv s)")
    case True
    with eq have "f sv m (s - 1) = Some y"
      by (auto simp: slot_missing_def split: sum.splits prod.splits if_splits)
    then show ?thesis by (rule IH)
  next
    case False
    with eq have "y = updateState sv m s \<or> (\<exists>e. y = (Inl (ErrGettingBeaconBlock s e), m))"
      by (auto simp: slot_missing_def split: sum.splits prod.splits if_splits)
    with False show ?thesis by blast
  qed
qed

lemma USTF_returns_iff:
  "UpdateStateToFinalized_loop sv m s \<noteq> None \<longleftrightarrow> (\<exists>k. \<not> slot_missing (GetBeaconBlock sv k))"
proof
  assume "UpdateStateToFinalized_loop sv m s \<noteq> None"
  then obtain y where "UpdateStateToFinalized_loop sv m s = Some y"
    by (cases "UpdateStateToFinalized_loop sv m s") simp_all
  from USTF_Some_cases[OF this] show "\<exists>k. \<not> slot_missing (GetBeaconBlock sv k)" by blast
next
  assume "\<exists>k. \<not> slot_missing (GetBeaconBlock sv k)"
  then obtain k where k: "\<not> slot_missing (GetBeaconBlock sv k)" by blast
  have "s - of_nat (unat (s - k)) = k" by simp
  with k have "\<not> slot_missing (GetBeaconBlock sv (s - of_nat (unat (s - k))))" by simp
  then have ex: "\<exists>n. \<not> slot_missing (GetBeaconBlock sv (s - of_nat n))" by (rule exI)
  define n where "n = (LEAST n. \<not> slot_missing (GetBeaconBlock sv (s - of_nat n)))"
  have n1: "\<not> slot_missing (GetBeaconBlock sv (s - of_nat n))"
    unfolding n_def using ex by (rule LeastI_ex)
  have n2: "\<forall>j<n. slot_missing (GetBeaconBlock sv (s - of_nat j))"
    unfolding n_def using not_less_Least by blast
  have "UpdateStateToFinalized_loop sv m s = UpdateStateToFinalized_loop sv m (s - of_nat n)"
    using n2 by (rule USTF_skip)
  also have "\<dots> \<noteq> None" using n1 by (rule USTF_not_missing)
  finally show "UpdateStateToFinalized_loop sv m s \<noteq> None" .
qed

lemma USTF_wrap:
  assumes "\<forall>k. k \<le> s \<longrightarrow> slot_missing (GetBeaconBlock sv k)"
  shows "UpdateStateToFinalized_loop sv m s = UpdateStateToFinalized_loop sv m (- 1)"
proof -
  have "\<forall>j<Suc (unat s). slot_missing (GetBeaconBlock sv (s - of_nat j))"
  proof (intro allI impI)
    fix j assume "j < Suc (unat s)"
    then have "s - of_nat j \<le> s"
      by (intro word_down_le) simp
    with assms show "slot_missing (GetBeaconBlock sv (s - of_nat j))" by blast
  qed
  from USTF_skip[OF this] show ?thesis by (simp only: word_down_wrap)
qed

lemma USTF_nearest:
  assumes "r \<le> s" "GetBeaconBlock sv r = Inr (b, True)"
    "\<forall>k. r < k \<and> k \<le> s \<longrightarrow> slot_missing (GetBeaconBlock sv k)"
  shows "UpdateStateToFinalized_loop sv m s = Some (updateState sv m r)"
proof -
  have "\<forall>j<unat s - unat r. slot_missing (GetBeaconBlock sv (s - of_nat j))"
    using assms(3) word_down_between[OF assms(1)] by blast
  from USTF_skip[OF this] show ?thesis
    by (simp add: word_down_reach[OF assms(1)] USTF_found[of sv r b, OF assms(2)])
qed

section \<open>The backward walk over missing slots\<close>

text \<open>
  C1 (as the code has it). The walk has no floor and no NoBlockFound error. It returns
  exactly when some slot of the whole \<^verbatim>\<open>uint64\<close> range is not answered "missing"
  (it has a block, or its probe fails). When every slot from the starting slot down to
  slot 0 is missing, \<^verbatim>\<open>targetSlot--\<close> wraps from 0 to \<open>2 ^ 64 - 1\<close> and the walk goes
  on from there. The same holds for the loop of UpdateStateToFinalized.
\<close>

theorem C1_walk_wraps_below_zero:
  fixes bc :: "64 word \<Rightarrow> error + ('blk \<times> bool)" and sv :: "('blk, 'st) services"
  shows "((\<forall>k. k \<le> s \<longrightarrow> slot_missing (bc k)) \<longrightarrow>
            GetLatestProposedBeaconBlock bc s = GetLatestProposedBeaconBlock bc (- 1))
       \<and> (GetLatestProposedBeaconBlock bc s \<noteq> None \<longleftrightarrow> (\<exists>k. \<not> slot_missing (bc k)))
       \<and> ((\<forall>k. k \<le> s \<longrightarrow> slot_missing (GetBeaconBlock sv k)) \<longrightarrow>
            UpdateStateToFinalized_loop sv m s = UpdateStateToFinalized_loop sv m (- 1))
       \<and> (UpdateStateToFinalized_loop sv m s \<noteq> None
            \<longleftrightarrow> (\<exists>k. \<not> slot_missing (GetBeaconBlock sv k)))"
proof (intro conjI impI)
  assume "\<forall>k. k \<le> s \<longrightarrow> slot_missing (bc k)"
  then show "GetLatestProposedBeaconBlock bc s = GetLatestProposedBeaconBlock bc (- 1)"
    by (rule GLPBB_wrap)
next
  show "GetLatestProposedBeaconBlock bc s \<noteq> None \<longleftrightarrow> (\<exists>k. \<not> slot_missing (bc k))"
    by (rule GLPBB_returns_iff)
next
  assume "\<forall>k. k \<le> s \<longrightarrow> slot_missing (GetBeaconBlock sv k)"
  then show "UpdateStateToFinalized_loop sv m s = UpdateStateToFinalized_loop sv m (- 1)"
    by (rule USTF_wrap)
next
  show "UpdateStateToFinalized_loop sv m s \<noteq> None
      \<longleftrightarrow> (\<exists>k. \<not> slot_missing (GetBeaconBlock sv k))"
    by (rule USTF_returns_iff)
qed

lemma only_block_at_missing: "k \<noteq> r \<Longrightarrow> slot_missing (only_block_at r k)"
  by (simp add: only_block_at_def slot_missing_def)

lemma only_block_at_present: "\<not> slot_missing (only_block_at r r)"
  by (simp add: only_block_at_def slot_missing_def)

theorem C1_walk_wraps_below_zero_witness:
  "GetLatestProposedBeaconBlock (only_block_at 9) 3 = GetLatestProposedBeaconBlock (only_block_at 9) (- 1)
   \<and> GetLatestProposedBeaconBlock (only_block_at 9) 3 \<noteq> None
   \<and> UpdateStateToFinalized_loop (example_services 0 (only_block_at 9)) example_manager 3
       = UpdateStateToFinalized_loop (example_services 0 (only_block_at 9)) example_manager (- 1)
   \<and> UpdateStateToFinalized_loop (example_services 0 (only_block_at 9)) example_manager 3 \<noteq> None"
proof -
  have low: "\<forall>k. k \<le> 3 \<longrightarrow> slot_missing (only_block_at 9 k)"
  proof (intro allI impI)
    fix k :: "64 word"
    assume "k \<le> 3"
    then have "k \<noteq> 9" by auto
    then show "slot_missing (only_block_at 9 k)" by (rule only_block_at_missing)
  qed
  have ex: "\<exists>k. \<not> slot_missing (only_block_at 9 k)"
    using only_block_at_present by (rule exI)
  have sv: "GetBeaconBlock (example_services 0 (only_block_at 9)) = only_block_at 9"
    by (simp add: example_services_def)
  from C1_walk_wraps_below_zero
    [of 3 "only_block_at 9" "example_services 0 (only_block_at 9)" example_manager]
  show ?thesis unfolding sv using low ex by blast
qed

text \<open>
  The claim C1 as stated fails: on a chain where no slot has a block the walk started at
  slot 0 never returns, so it does not fail with NoBlockFound.
\<close>

theorem C1_counterexample:
  "GetLatestProposedBeaconBlock no_blocks 0 = None
   \<and> UpdateStateToFinalized_loop (example_services 0 no_blocks) example_manager 0 = None"
proof
  have "\<forall>k. slot_missing (no_blocks k)" by (simp add: no_blocks_def slot_missing_def)
  then show "GetLatestProposedBeaconBlock no_blocks 0 = None" by (rule GLPBB_all_missing)
next
  have "\<not> (\<exists>k. \<not> slot_missing (GetBeaconBlock (example_services 0 no_blocks) k))"
    by (simp add: example_services_def no_blocks_def slot_missing_def)
  then show "UpdateStateToFinalized_loop (example_services 0 no_blocks) example_manager 0 = None"
    using USTF_returns_iff[of "example_services 0 no_blocks" example_manager 0] by blast
qed

text \<open>
  C3. When slot \<open>r \<le> s\<close> has a block and every slot above \<open>r\<close> up to the target \<open>s\<close> is
  missing, the walk from \<open>s\<close> returns the block of slot \<open>r\<close>, and UpdateStateToFinalized
  builds the state at slot \<open>r\<close>. With \<open>r = s\<close>, \<open>r = s - 1\<close> and \<open>r = s - 3\<close> these are the
  three cases of the claim.
\<close>

theorem C3_walk_returns_nearest_block:
  assumes "r \<le> s"
    and "GetBeaconBlock sv r = Inr (b, True)"
    and "\<forall>k. r < k \<and> k \<le> s \<longrightarrow> slot_missing (GetBeaconBlock sv k)"
  shows "GetLatestProposedBeaconBlock (GetBeaconBlock sv) s = Some (Inr b)
       \<and> UpdateStateToFinalized_loop sv m s = Some (updateState sv m r)"
  using GLPBB_nearest[OF assms] USTF_nearest[OF assms] by simp

theorem C3_walk_returns_nearest_block_witness:
  "GetLatestProposedBeaconBlock (blocks_up_to 7) 10 = Some (Inr 7)
   \<and> UpdateStateToFinalized_loop (example_services 0 (blocks_up_to 7)) example_manager 10
       = Some (Inr 7, example_manager\<lparr>latestState := Some 7\<rparr>)"
proof -
  have sv: "GetBeaconBlock (example_services 0 (blocks_up_to 7)) = blocks_up_to 7"
    by (simp add: example_services_def)
  have a: "(7 :: 64 word) \<le> 10" by simp
  have b: "GetBeaconBlock (example_services 0 (blocks_up_to 7)) 7 = Inr (7, True)"
    by (simp add: sv blocks_up_to_def)
  have c: "\<forall>k. 7 < k \<and> k \<le> 10 \<longrightarrow> slot_missing (GetBeaconBlock (example_services 0 (blocks_up_to 7)) k)"
    by (auto simp: sv blocks_up_to_def slot_missing_def)
  have u: "updateState (example_services 0 (blocks_up_to 7)) example_manager 7
      = (Inr 7, example_manager\<lparr>latestState := Some 7\<rparr>)"
    by (simp add: updateState_def example_services_def)
  from C3_walk_returns_nearest_block[OF a b c, of example_manager]
  show ?thesis unfolding sv u .
qed

section \<open>Facts about the time arithmetic\<close>

lemma int64_id: "- (2 ^ 63) \<le> x \<Longrightarrow> x < 2 ^ 63 \<Longrightarrow> int64 x = x"
  by (simp add: int64_def)

lemma sint_small:
  fixes w :: "64 word"
  assumes lt: "uint w < 2 ^ 63"
  shows "sint w = uint w"
proof -
  have "(0::int) \<le> uint w" by (rule uint_nonnegative)
  moreover have "- (2 ^ 63) \<le> (0::int)" by simp
  ultimately have ge: "- (2 ^ 63) \<le> uint w" by (rule order_trans[rotated])
  have "signed_take_bit 63 (uint w) = uint w" using ge lt by (rule signed_take_bit_int_eq_self)
  moreover have "sint w = signed_take_bit 63 (uint w)" using sint_uint[of w] by simp
  ultimately show ?thesis by (simp only:)
qed

subsection \<open>Rounding to \<^verbatim>\<open>float64\<close>\<close>

lemma round_half_even_ge_floor: "\<lfloor>q\<rfloor> \<le> round_half_even q"
  by (simp add: round_half_even_def Let_def)

lemma round_half_even_le_ceiling: "round_half_even q \<le> \<lceil>q\<rceil>"
proof (cases "q = of_int \<lfloor>q\<rfloor>")
  case True
  then have "q - of_int \<lfloor>q\<rfloor> < 1 / 2" by simp
  then have "round_half_even q = \<lfloor>q\<rfloor>" by (simp add: round_half_even_def Let_def)
  then show ?thesis by (simp add: floor_le_ceiling)
next
  case False
  then have "of_int \<lfloor>q\<rfloor> < q" using of_int_floor_le[of q] by linarith
  then have "\<lfloor>q\<rfloor> < \<lceil>q\<rceil>" by (simp add: less_ceiling_iff)
  then have "\<lfloor>q\<rfloor> + 1 \<le> \<lceil>q\<rceil>" by simp
  moreover have "round_half_even q \<le> \<lfloor>q\<rfloor> + 1" by (simp add: round_half_even_def Let_def)
  ultimately show ?thesis by linarith
qed

lemma round_half_even_ge:
  assumes "of_int m \<le> q"
  shows "m \<le> round_half_even q"
proof -
  have "m \<le> \<lfloor>q\<rfloor>" using assms by (simp add: le_floor_iff)
  also have "\<dots> \<le> round_half_even q" by (rule round_half_even_ge_floor)
  finally show ?thesis .
qed

lemma round_half_even_le:
  assumes "q \<le> of_int m"
  shows "round_half_even q \<le> m"
proof -
  have "round_half_even q \<le> \<lceil>q\<rceil>" by (rule round_half_even_le_ceiling)
  also have "\<dots> \<le> m" using assms by (simp add: ceiling_le_iff)
  finally show ?thesis .
qed

lemma binary_exponent_bounds:
  assumes "x \<noteq> 0"
  shows "2 powi (binary_exponent x) \<le> \<bar>x\<bar> \<and> \<bar>x\<bar> < 2 powi (binary_exponent x + 1)"
proof -
  obtain p q where pq: "quotient_of \<bar>x\<bar> = (p, q)" by (cases "quotient_of \<bar>x\<bar>")
  have q0: "0 < q" using pq by (rule quotient_of_denom_pos)
  have x: "\<bar>x\<bar> = of_int p / of_int q" using pq by (rule quotient_of_div)
  have "0 < \<bar>x\<bar>" using assms by simp
  then have "0 < (of_int p :: rat) / of_int q" unfolding x .
  then have p0: "0 < p" using q0 by (simp add: zero_less_divide_iff)
  define a where "a = bitlen p"
  define b where "b = bitlen q"
  have a1: "1 \<le> a" using p0 unfolding a_def by (auto simp: bitlen_alt_def)
  have b1: "1 \<le> b" using q0 unfolding b_def by (auto simp: bitlen_alt_def)
  from bitlen_bounds[OF p0] have pl: "2 ^ nat (a - 1) \<le> p" and pu: "p < 2 ^ nat a"
    unfolding a_def by simp_all
  from bitlen_bounds[OF q0] have ql: "2 ^ nat (b - 1) \<le> q" and qu: "q < 2 ^ nat b"
    unfolding b_def by simp_all
  have P: "(2::rat) ^ nat k = 2 powi k" if "0 \<le> k" for k
    using that by (simp add: power_int_nonneg_exp)
  have pl': "(2::rat) powi (a - 1) \<le> of_int p"
  proof -
    have "(of_int (2 ^ nat (a - 1)) :: rat) \<le> of_int p" using pl by (simp only: of_int_le_iff)
    then show ?thesis using a1 by (simp add: P)
  qed
  have pu': "(of_int p :: rat) < 2 powi a"
  proof -
    have "(of_int p :: rat) < of_int (2 ^ nat a)" using pu by (simp only: of_int_less_iff)
    then show ?thesis using a1 by (simp add: P)
  qed
  have ql': "(2::rat) powi (b - 1) \<le> of_int q"
  proof -
    have "(of_int (2 ^ nat (b - 1)) :: rat) \<le> of_int q" using ql by (simp only: of_int_le_iff)
    then show ?thesis using b1 by (simp add: P)
  qed
  have qu': "(of_int q :: rat) < 2 powi b"
  proof -
    have "(of_int q :: rat) < of_int (2 ^ nat b)" using qu by (simp only: of_int_less_iff)
    then show ?thesis using b1 by (simp add: P)
  qed
  have qpos: "(0::rat) < of_int q" using q0 by simp
  have ppos: "(0::rat) < of_int p" using p0 by simp
  have up: "\<bar>x\<bar> < 2 powi (a - b + 1)"
  proof -
    have "of_int p / of_int q < (2::rat) powi a / of_int q"
      using pu' qpos by (simp add: divide_strict_right_mono)
    also have "\<dots> \<le> 2 powi a / 2 powi (b - 1)"
    proof (rule divide_left_mono[OF ql'])
      show "(0::rat) \<le> 2 powi a" by simp
      show "(0::rat) < of_int q * 2 powi (b - 1)" using qpos by (intro mult_pos_pos) simp_all
    qed
    also have "\<dots> = 2 powi (a - (b - 1))" by (simp add: power_int_diff)
    finally show ?thesis unfolding x by (simp add: algebra_simps)
  qed
  have lo: "2 powi (a - b - 1) \<le> \<bar>x\<bar>"
  proof -
    have "(2::rat) powi (a - 1 - b) = 2 powi (a - 1) / 2 powi b" by (simp add: power_int_diff)
    also have "\<dots> \<le> of_int p / 2 powi b"
      using pl' by (simp add: divide_right_mono)
    also have "\<dots> \<le> of_int p / of_int q"
    proof (rule divide_left_mono)
      show "(of_int q :: rat) \<le> 2 powi b" using qu' by simp
      show "(0::rat) \<le> of_int p" using ppos by simp
      show "(0::rat) < 2 powi b * of_int q" using qpos by (intro mult_pos_pos) simp_all
    qed
    finally show ?thesis unfolding x by (simp add: algebra_simps)
  qed
  show ?thesis
  proof (cases "2 powi (a - b) \<le> \<bar>x\<bar>")
    case True
    then have "binary_exponent x = a - b"
      by (simp add: binary_exponent_def pq a_def b_def)
    with True up show ?thesis by simp
  next
    case False
    then have "binary_exponent x = a - b - 1"
      by (simp add: binary_exponent_def pq a_def b_def)
    with False lo show ?thesis by simp
  qed
qed

lemma float64_zero: "float64 0 = 0"
  by (simp add: float64_def)

text \<open>A value \<open>m * 2 powi j\<close> with \<open>\<bar>m\<bar> < 2 ^ 53\<close> is a \<^verbatim>\<open>float64\<close>. Rounding never
  crosses such a value.\<close>

lemma float64_ge:
  assumes m: "\<bar>m\<bar> < 2 ^ 53" and le: "of_int m * 2 powi j \<le> x"
  shows "of_int m * 2 powi j \<le> float64 x"
proof (cases "x = 0")
  case True
  with le show ?thesis by (simp add: float64_zero)
next
  case False
  define e where "e = binary_exponent x"
  define u :: rat where "u = 2 powi (e - 52)"
  have u0: "0 < u" unfolding u_def by simp
  from binary_exponent_bounds[OF False] have lo: "2 powi e \<le> \<bar>x\<bar>" unfolding e_def by simp
  have f: "float64 x = of_int (round_half_even (x / u)) * u"
    using False by (simp add: float64_def Let_def u_def e_def)
  show ?thesis
  proof (cases "e \<le> j + 52")
    case True
    then have "(2::rat) powi j / u = 2 powi (j - (e - 52))"
      unfolding u_def by (simp add: power_int_diff)
    also have "\<dots> = 2 ^ nat (j - (e - 52))" using True by (simp add: power_int_nonneg_exp)
    finally have pj: "(2::rat) powi j / u = 2 ^ nat (j - (e - 52))" .
    have "of_int m * 2 powi j / u = of_int m * (2 powi j / u)" by simp
    also have "\<dots> = of_int (m * 2 ^ nat (j - (e - 52)))" unfolding pj by simp
    finally have eq: "of_int m * 2 powi j / u = of_int (m * 2 ^ nat (j - (e - 52)))" .
    moreover have "of_int m * 2 powi j / u \<le> x / u" using le u0 by (simp add: divide_right_mono)
    ultimately have "m * 2 ^ nat (j - (e - 52)) \<le> round_half_even (x / u)"
      by (intro round_half_even_ge) simp
    then have "(of_int (m * 2 ^ nat (j - (e - 52))) :: rat) \<le> of_int (round_half_even (x / u))"
      by (simp only: of_int_le_iff)
    then have A: "of_int (m * 2 ^ nat (j - (e - 52))) * u \<le> of_int (round_half_even (x / u)) * u"
      using u0 by (intro mult_right_mono) simp_all
    have B: "of_int (m * 2 ^ nat (j - (e - 52))) * u = of_int m * 2 powi j"
    proof -
      have "(2::rat) ^ nat (j - (e - 52)) * u = 2 powi j"
        using pj u0 by (simp add: field_simps)
      then have "of_int m * ((2::rat) ^ nat (j - (e - 52)) * u) = of_int m * 2 powi j"
        by (simp only:)
      then show ?thesis by (simp add: mult.assoc)
    qed
    from A show ?thesis unfolding f B .
  next
    case False
    then have je: "j + 53 \<le> e" by simp
    have "\<bar>of_int m * (2::rat) powi j\<bar> = \<bar>of_int m\<bar> * 2 powi j" by (simp add: abs_mult)
    also have "\<dots> < 2 ^ 53 * 2 powi j"
    proof -
      have "(of_int \<bar>m\<bar> :: rat) < of_int (2 ^ 53)" using m by (simp only: of_int_less_iff)
      then have "\<bar>of_int m :: rat\<bar> < 2 ^ 53" by simp
      then show ?thesis by (simp add: mult_strict_right_mono)
    qed
    also have "\<dots> = 2 powi (j + 53)" by (simp add: power_int_add)
    also have "\<dots> \<le> 2 powi e" using je by (intro power_int_increasing) simp_all
    finally have small: "\<bar>of_int m * (2::rat) powi j\<bar> < 2 powi e" .
    show ?thesis
    proof (cases "0 < x")
      case True
      then have "2 powi e \<le> x" using lo by simp
      then have "2 powi e / u \<le> x / u" using u0 by (simp add: divide_right_mono)
      moreover have "(2::rat) powi e / u = 2 ^ 52"
        unfolding u_def by (simp flip: power_int_diff)
      ultimately have "(of_int (2 ^ 52) :: rat) \<le> x / u" by simp
      then have "2 ^ 52 \<le> round_half_even (x / u)" by (rule round_half_even_ge)
      then have "(of_int (2 ^ 52) :: rat) \<le> of_int (round_half_even (x / u))"
        by (simp only: of_int_le_iff)
      then have "of_int (2 ^ 52) * u \<le> of_int (round_half_even (x / u)) * u"
        using u0 by (simp add: mult_right_mono)
      moreover have "of_int (2 ^ 52) * u = 2 powi e"
        using \<open>(2::rat) powi e / u = 2 ^ 52\<close> u0 by (simp add: field_simps)
      ultimately have "2 powi e \<le> float64 x" unfolding f by simp
      with small show ?thesis by linarith
    next
      case False
      with \<open>x \<noteq> 0\<close> have "x < 0" by simp
      with le lo have "2 powi e \<le> \<bar>of_int m * (2::rat) powi j\<bar>" by linarith
      with small show ?thesis by simp
    qed
  qed
qed

lemma float64_le:
  assumes m: "\<bar>m\<bar> < 2 ^ 53" and le: "x \<le> of_int m * 2 powi j"
  shows "float64 x \<le> of_int m * 2 powi j"
proof (cases "x = 0")
  case True
  with le show ?thesis by (simp add: float64_zero)
next
  case False
  define e where "e = binary_exponent x"
  define u :: rat where "u = 2 powi (e - 52)"
  have u0: "0 < u" unfolding u_def by simp
  from binary_exponent_bounds[OF False] have lo: "2 powi e \<le> \<bar>x\<bar>" unfolding e_def by simp
  have f: "float64 x = of_int (round_half_even (x / u)) * u"
    using False by (simp add: float64_def Let_def u_def e_def)
  show ?thesis
  proof (cases "e \<le> j + 52")
    case True
    then have "(2::rat) powi j / u = 2 powi (j - (e - 52))"
      unfolding u_def by (simp add: power_int_diff)
    also have "\<dots> = 2 ^ nat (j - (e - 52))" using True by (simp add: power_int_nonneg_exp)
    finally have pj: "(2::rat) powi j / u = 2 ^ nat (j - (e - 52))" .
    have "of_int m * 2 powi j / u = of_int m * (2 powi j / u)" by simp
    also have "\<dots> = of_int (m * 2 ^ nat (j - (e - 52)))" unfolding pj by simp
    finally have eq: "of_int m * 2 powi j / u = of_int (m * 2 ^ nat (j - (e - 52)))" .
    moreover have "x / u \<le> of_int m * 2 powi j / u" using le u0 by (simp add: divide_right_mono)
    ultimately have "round_half_even (x / u) \<le> m * 2 ^ nat (j - (e - 52))"
      by (intro round_half_even_le) simp
    then have "(of_int (round_half_even (x / u)) :: rat) \<le> of_int (m * 2 ^ nat (j - (e - 52)))"
      by (simp only: of_int_le_iff)
    then have A: "of_int (round_half_even (x / u)) * u \<le> of_int (m * 2 ^ nat (j - (e - 52))) * u"
      using u0 by (intro mult_right_mono) simp_all
    have B: "of_int (m * 2 ^ nat (j - (e - 52))) * u = of_int m * 2 powi j"
    proof -
      have "(2::rat) ^ nat (j - (e - 52)) * u = 2 powi j"
        using pj u0 by (simp add: field_simps)
      then have "of_int m * ((2::rat) ^ nat (j - (e - 52)) * u) = of_int m * 2 powi j"
        by (simp only:)
      then show ?thesis by (simp add: mult.assoc)
    qed
    from A show ?thesis unfolding f B .
  next
    case False
    then have je: "j + 53 \<le> e" by simp
    have "\<bar>of_int m * (2::rat) powi j\<bar> = \<bar>of_int m\<bar> * 2 powi j" by (simp add: abs_mult)
    also have "\<dots> < 2 ^ 53 * 2 powi j"
    proof -
      have "(of_int \<bar>m\<bar> :: rat) < of_int (2 ^ 53)" using m by (simp only: of_int_less_iff)
      then have "\<bar>of_int m :: rat\<bar> < 2 ^ 53" by simp
      then show ?thesis by (simp add: mult_strict_right_mono)
    qed
    also have "\<dots> = 2 powi (j + 53)" by (simp add: power_int_add)
    also have "\<dots> \<le> 2 powi e" using je by (intro power_int_increasing) simp_all
    finally have small: "\<bar>of_int m * (2::rat) powi j\<bar> < 2 powi e" .
    show ?thesis
    proof (cases "x < 0")
      case True
      then have "x \<le> - (2 powi e)" using lo by simp
      then have "x / u \<le> (- (2 powi e)) / u" using u0 by (intro divide_right_mono) simp_all
      moreover have "(2::rat) powi e / u = 2 ^ 52"
        unfolding u_def by (simp flip: power_int_diff)
      ultimately have "x / u \<le> (of_int (- (2 ^ 52)) :: rat)" by simp
      then have "round_half_even (x / u) \<le> - (2 ^ 52)" by (rule round_half_even_le)
      then have "(of_int (round_half_even (x / u)) :: rat) \<le> of_int (- (2 ^ 52))"
        by (simp only: of_int_le_iff)
      then have "of_int (round_half_even (x / u)) * u \<le> (of_int (- (2 ^ 52)) :: rat) * u"
        using u0 by (intro mult_right_mono) simp_all
      moreover have "(of_int (- (2 ^ 52)) :: rat) * u = - (2 powi e)"
        using \<open>(2::rat) powi e / u = 2 ^ 52\<close> u0 by (simp add: field_simps)
      ultimately have "float64 x \<le> - (2 powi e)" unfolding f by (simp only:)
      with small show ?thesis by linarith
    next
      case False
      with \<open>x \<noteq> 0\<close> have "0 < x" by simp
      with le lo have "2 powi e \<le> \<bar>of_int m * (2::rat) powi j\<bar>" by linarith
      with small show ?thesis by simp
    qed
  qed
qed

lemma float64_ge_int: "\<bar>m\<bar> < 2 ^ 53 \<Longrightarrow> of_int m \<le> x \<Longrightarrow> of_int m \<le> float64 x"
  using float64_ge[of m 0 x] by simp

lemma float64_le_int: "\<bar>m\<bar> < 2 ^ 53 \<Longrightarrow> x \<le> of_int m \<Longrightarrow> float64 x \<le> of_int m"
  using float64_le[of m x 0] by simp

lemma float64_of_int: "\<bar>m\<bar> < 2 ^ 53 \<Longrightarrow> float64 (of_int m) = of_int m"
  using float64_ge_int[of m "of_int m"] float64_le_int[of m "of_int m"] by simp

lemma round_half_even_above_half:
  assumes "of_int m - 1 / 2 < q"
  shows "m \<le> round_half_even q"
proof (cases "m \<le> \<lfloor>q\<rfloor>")
  case True
  with round_half_even_ge_floor[of q] show ?thesis by linarith
next
  case False
  have "of_int (m - 1) \<le> q" using assms by simp
  then have "m - 1 \<le> \<lfloor>q\<rfloor>" by (simp only: le_floor_iff)
  with False have f: "\<lfloor>q\<rfloor> = m - 1" by simp
  have "1 / 2 < q - of_int \<lfloor>q\<rfloor>" unfolding f using assms by simp
  then show ?thesis by (simp add: round_half_even_def Let_def f)
qed

lemma binary_exponent_unique:
  assumes "2 powi e \<le> \<bar>x\<bar>" "\<bar>x\<bar> < 2 powi (e + 1)"
  shows "binary_exponent x = e"
proof -
  have "(0::rat) < 2 powi e" by simp
  with assms(1) have "0 < \<bar>x\<bar>" by linarith
  then have x0: "x \<noteq> 0" by simp
  define b where "b = binary_exponent x"
  from binary_exponent_bounds[OF x0] have lo: "2 powi b \<le> \<bar>x\<bar>" and hi: "\<bar>x\<bar> < 2 powi (b + 1)"
    unfolding b_def by simp_all
  have "\<not> b < e"
  proof
    assume "b < e"
    then have "(2::rat) powi (b + 1) \<le> 2 powi e" by (intro power_int_increasing) simp_all
    with hi assms(1) show False by linarith
  qed
  moreover have "\<not> e < b"
  proof
    assume "e < b"
    then have "(2::rat) powi (e + 1) \<le> 2 powi b" by (intro power_int_increasing) simp_all
    with lo assms(2) show False by linarith
  qed
  ultimately show ?thesis unfolding b_def by simp
qed

lemma float64_ge_nearest:
  assumes lo: "2 powi (j + 52) \<le> x" and hi: "x < 2 powi (j + 53)"
    and half: "of_int m * 2 powi j - 2 powi j / 2 < x"
  shows "of_int m * 2 powi j \<le> float64 x"
proof -
  have p: "(0::rat) < 2 powi (j + 52)" by simp
  with lo have x0: "0 < x" by linarith
  have "j + 52 + 1 = j + 53" by simp
  then have e: "binary_exponent x = j + 52"
    using lo hi x0 by (intro binary_exponent_unique) (simp_all add: add.commute)
  have u0: "(0::rat) < 2 powi j" by simp
  have f: "float64 x = of_int (round_half_even (x / 2 powi j)) * 2 powi j"
    using x0 by (simp add: float64_def Let_def e)
  have "(of_int m * 2 powi j - 2 powi j / 2) / 2 powi j < x / 2 powi j"
    using half u0 by (intro divide_strict_right_mono) simp_all
  moreover have "(of_int m * 2 powi j - 2 powi j / 2) / 2 powi j = (of_int m :: rat) - 1 / 2"
    by (simp add: field_simps)
  ultimately have "(of_int m :: rat) - 1 / 2 < x / 2 powi j" by simp
  then have "m \<le> round_half_even (x / 2 powi j)" by (rule round_half_even_above_half)
  then have "(of_int m :: rat) \<le> of_int (round_half_even (x / 2 powi j))"
    by (simp only: of_int_le_iff)
  then have "of_int m * (2::rat) powi j \<le> of_int (round_half_even (x / 2 powi j)) * 2 powi j"
    using u0 by (intro mult_right_mono) simp_all
  then show ?thesis unfolding f .
qed

subsection \<open>Durations in seconds\<close>

lemma frac_seconds_le_one:
  assumes "n \<le> 1000000000"
  shows "float64 (float64 (of_int n) / 1000000000) \<le> 1"
proof -
  have "(of_int n :: rat) \<le> of_int 1000000000" using assms by (simp only: of_int_le_iff)
  then have "float64 (of_int n) \<le> of_int 1000000000" by (intro float64_le_int) simp_all
  then have "float64 (of_int n) / 1000000000 \<le> of_int 1" by simp
  then have "float64 (float64 (of_int n) / 1000000000) \<le> of_int 1"
    by (intro float64_le_int) simp_all
  then show ?thesis by simp
qed

lemma frac_seconds_nonneg:
  assumes "0 \<le> n"
  shows "0 \<le> float64 (float64 (of_int n) / 1000000000)"
proof -
  have "(of_int 0 :: rat) \<le> of_int n" using assms by (simp only: of_int_le_iff)
  then have "of_int 0 \<le> float64 (of_int n)" by (intro float64_ge_int) simp_all
  then have "of_int 0 \<le> float64 (of_int n) / 1000000000" by simp
  then have "of_int 0 \<le> float64 (float64 (of_int n) / 1000000000)"
    by (intro float64_ge_int) simp_all
  then show ?thesis by simp
qed

lemma frac_seconds_nonpos:
  assumes "n \<le> 0"
  shows "float64 (float64 (of_int n) / 1000000000) \<le> 0"
proof -
  have "(of_int n :: rat) \<le> of_int 0" using assms by (simp only: of_int_le_iff)
  then have "float64 (of_int n) \<le> of_int 0" by (intro float64_le_int) simp_all
  then have "float64 (of_int n) / 1000000000 \<le> of_int 0" by (simp add: divide_le_0_iff)
  then have "float64 (float64 (of_int n) / 1000000000) \<le> of_int 0"
    by (intro float64_le_int) simp_all
  then show ?thesis by simp
qed

lemma frac_seconds_positive:
  assumes "1 \<le> n"
  shows "2 powi (- 30) \<le> float64 (float64 (of_int n) / 1000000000)"
proof -
  have "(of_int 1 :: rat) \<le> of_int n" using assms by (simp only: of_int_le_iff)
  then have "of_int 1 \<le> float64 (of_int n)" by (intro float64_ge_int) simp_all
  then have "1 / 1000000000 \<le> float64 (of_int n) / 1000000000"
    by (simp add: divide_right_mono)
  moreover have "of_int 1 * (2::rat) powi (- 30) \<le> 1 / 1000000000"
    by (simp add: power_int_minus field_simps)
  ultimately have "of_int 1 * 2 powi (- 30) \<le> float64 (of_int n) / 1000000000"
    by (rule order_trans[rotated])
  then have "of_int 1 * 2 powi (- 30) \<le> float64 (float64 (of_int n) / 1000000000)"
    by (intro float64_ge) simp_all
  then show ?thesis by simp
qed

lemma sdiv_smod_nonneg:
  assumes "0 \<le> d"
  shows "d sdiv Second = d div Second" "d smod Second = d mod Second"
  using assms
  by (simp_all add: signed_divide_int_def signed_modulo_int_def Second_def sgn_if)

lemma sdiv_smod_neg:
  assumes "d < 0"
  shows "d sdiv Second \<le> 0" "d smod Second \<le> 0"
proof -
  have "0 \<le> \<bar>d\<bar> div 1000000000" by simp
  then show "d sdiv Second \<le> 0"
    using assms by (simp add: signed_divide_int_def Second_def sgn_if)
  have "0 \<le> \<bar>d\<bar> mod 1000000000" by simp
  then show "d smod Second \<le> 0"
    using assms by (simp add: signed_modulo_int_def Second_def sgn_if)
qed

lemma Seconds_parts_le:
  assumes "s \<le> k1" "\<bar>k1\<bar> < 2 ^ 53" "b \<le> of_int k2" "\<bar>k1 + k2\<bar> < 2 ^ 53"
  shows "float64 (float64 (of_int s) + b) \<le> of_int (k1 + k2)"
proof -
  have "(of_int s :: rat) \<le> of_int k1" using assms(1) by (simp only: of_int_le_iff)
  then have "float64 (of_int s) \<le> of_int k1" using assms(2) by (intro float64_le_int)
  with assms(3) have "float64 (of_int s) + b \<le> of_int (k1 + k2)" by simp
  then show ?thesis using assms(4) by (intro float64_le_int)
qed

lemma Seconds_parts_ge:
  assumes "k1 \<le> s" "\<bar>k1\<bar> < 2 ^ 53" "0 \<le> b"
  shows "of_int k1 \<le> float64 (float64 (of_int s) + b)"
proof -
  have "(of_int k1 :: rat) \<le> of_int s" using assms(1) by (simp only: of_int_le_iff)
  then have "of_int k1 \<le> float64 (of_int s)" using assms(2) by (intro float64_ge_int)
  with assms(3) have "of_int k1 \<le> float64 (of_int s) + b" by simp
  then show ?thesis using assms(2) by (intro float64_ge_int)
qed

lemma Seconds_le:
  assumes le: "d \<le> k * Second" and k0: "0 \<le> k" and k1: "k < 2 ^ 53"
  shows "Seconds d \<le> of_int k"
proof (cases "d < 0")
  case True
  have b: "float64 (float64 (of_int (d smod Second)) / 1000000000) \<le> of_int 0"
    using frac_seconds_nonpos[OF sdiv_smod_neg(2)[OF True]] by simp
  have "float64 (float64 (of_int (d sdiv Second))
          + float64 (float64 (of_int (d smod Second)) / 1000000000)) \<le> of_int (0 + 0)"
    using sdiv_smod_neg(1)[OF True] b by (intro Seconds_parts_le) simp_all
  then have "Seconds d \<le> 0" by (simp add: Seconds_def)
  also have "0 \<le> (of_int k :: rat)" using k0 by simp
  finally show ?thesis .
next
  case False
  then have d0: "0 \<le> d" by simp
  define s where "s = d div Second"
  define n where "n = d mod Second"
  have S: "Seconds d = float64 (float64 (of_int s) + float64 (float64 (of_int n) / 1000000000))"
    unfolding Seconds_def sdiv_smod_nonneg[OF d0] s_def n_def ..
  have n0: "0 \<le> n" and n1: "n < 1000000000" unfolding n_def by (simp_all add: Second_def)
  have d: "d = s * 1000000000 + n" unfolding s_def n_def by (simp add: Second_def)
  have s0: "0 \<le> s" unfolding s_def using d0 by (simp add: Second_def pos_imp_zdiv_nonneg_iff)
  show ?thesis
  proof (cases "n = 0")
    case True
    with d le have "s \<le> k" by (simp add: Second_def)
    moreover have "float64 (float64 (of_int n) / 1000000000) \<le> of_int 0"
      using True by (simp add: float64_zero)
    ultimately have "float64 (float64 (of_int s) + float64 (float64 (of_int n) / 1000000000))
        \<le> of_int (k + 0)"
      using k0 k1 by (intro Seconds_parts_le) simp_all
    then show ?thesis unfolding S by simp
  next
    case False
    with n0 have "0 < n" by simp
    with d le have "s * 1000000000 < k * 1000000000" by (simp add: Second_def)
    then have "s \<le> k - 1" by simp
    moreover have "float64 (float64 (of_int n) / 1000000000) \<le> of_int 1"
      using n1 frac_seconds_le_one[of n] by simp
    ultimately have "float64 (float64 (of_int s) + float64 (float64 (of_int n) / 1000000000))
        \<le> of_int (k - 1 + 1)"
      using k0 k1 s0 by (intro Seconds_parts_le) simp_all
    then show ?thesis unfolding S by simp
  qed
qed

lemma Seconds_ge:
  assumes ge: "k * Second \<le> d" and k0: "0 \<le> k" and k1: "k < 2 ^ 53"
  shows "of_int k \<le> Seconds d"
proof -
  have "0 \<le> k * Second" using k0 by (simp add: Second_def)
  with ge have d0: "0 \<le> d" by simp
  have "k * 1000000000 \<le> d" using ge by (simp add: Second_def)
  then have "k \<le> d div 1000000000"
    by (simp add: pos_le_divide_eq zdiv_mono1 flip: div_mult_self_is_m)
  then have a: "k \<le> d div Second" by (simp add: Second_def)
  have "0 \<le> d mod Second" by (simp add: Second_def)
  then have b: "0 \<le> float64 (float64 (of_int (d mod Second)) / 1000000000)"
    by (rule frac_seconds_nonneg)
  show ?thesis
    unfolding Seconds_def sdiv_smod_nonneg[OF d0]
    using a k0 k1 b by (intro Seconds_parts_ge) simp_all
qed

lemma Seconds_gt:
  assumes gt: "k * Second < d" and k0: "0 \<le> k" and k1: "k < 2 ^ 23"
  shows "of_int k < Seconds d"
proof -
  have "0 \<le> k * Second" using k0 by (simp add: Second_def)
  with gt have d0: "0 \<le> d" by simp
  define s where "s = d div Second"
  define n where "n = d mod Second"
  have S: "Seconds d = float64 (float64 (of_int s) + float64 (float64 (of_int n) / 1000000000))"
    unfolding Seconds_def sdiv_smod_nonneg[OF d0] s_def n_def ..
  have n0: "0 \<le> n" and n1: "n < 1000000000" unfolding n_def by (simp_all add: Second_def)
  have d: "d = s * 1000000000 + n" unfolding s_def n_def by (simp add: Second_def)
  have k53: "k + 1 < 2 ^ 53" using k1 by simp
  show ?thesis
  proof (cases "k + 1 \<le> s")
    case True
    then have "(k + 1) * Second \<le> d" using d n0 by (simp add: Second_def)
    then have "of_int (k + 1) \<le> Seconds d" using k0 k53 by (intro Seconds_ge) simp_all
    then show ?thesis by simp
  next
    case False
    then have "s \<le> k" by simp
    moreover have "k * 1000000000 < s * 1000000000 + n" using gt d by (simp add: Second_def)
    ultimately have sk: "s = k" and n1': "1 \<le> n" using n1 by auto
    have b: "2 powi (- 30) \<le> float64 (float64 (of_int n) / 1000000000)"
      using n1' by (rule frac_seconds_positive)
    have "(of_int k :: rat) \<le> float64 (of_int k)"
      using k0 k53 by (intro float64_ge_int) simp_all
    with b have "of_int k + 2 powi (- 30)
        \<le> float64 (of_int k) + float64 (float64 (of_int n) / 1000000000)" by simp
    moreover have "of_int (k * 2 ^ 30 + 1) * (2::rat) powi (- 30) = of_int k + 2 powi (- 30)"
      by (simp add: power_int_minus field_simps)
    ultimately have "of_int (k * 2 ^ 30 + 1) * 2 powi (- 30)
        \<le> float64 (of_int k) + float64 (float64 (of_int n) / 1000000000)" by simp
    moreover have "\<bar>k * 2 ^ 30 + 1\<bar> < 2 ^ 53" using k0 k1 by simp
    ultimately have "of_int (k * 2 ^ 30 + 1) * 2 powi (- 30)
        \<le> float64 (float64 (of_int k) + float64 (float64 (of_int n) / 1000000000))"
      by (intro float64_ge)
    then have "of_int k + 2 powi (- 30) \<le> Seconds d"
      unfolding S sk
      using \<open>of_int (k * 2 ^ 30 + 1) * (2::rat) powi (- 30) = of_int k + 2 powi (- 30)\<close>
      by simp
    moreover have "(0::rat) < 2 powi (- 30)" by simp
    ultimately show ?thesis by linarith
  qed
qed

lemma frac_seconds_below_one:
  assumes "n < 1000000000"
  shows "float64 (float64 (of_int n) / 1000000000) \<le> of_int (2 ^ 53 - 1) * 2 powi (- 53)"
proof -
  have "n \<le> 999999999" using assms by simp
  then have "(of_int n :: rat) \<le> of_int 999999999" by (simp only: of_int_le_iff)
  then have "float64 (of_int n) \<le> of_int 999999999" by (intro float64_le_int) simp_all
  then have "float64 (of_int n) / 1000000000 \<le> 999999999 / 1000000000"
    by (simp add: divide_right_mono)
  moreover have "(999999999 / 1000000000 :: rat) \<le> of_int (2 ^ 53 - 1) * 2 powi (- 53)"
    by (simp add: power_int_minus field_simps)
  ultimately have "float64 (of_int n) / 1000000000 \<le> of_int (2 ^ 53 - 1) * 2 powi (- 53)"
    by (rule order_trans)
  then show ?thesis by (intro float64_le) simp_all
qed

lemma frac_seconds_above_half_ulp:
  assumes "1 \<le> n"
  shows "of_int 17 * 2 powi (- 34) \<le> float64 (float64 (of_int n) / 1000000000)"
proof -
  have "(of_int 1 :: rat) \<le> of_int n" using assms by (simp only: of_int_le_iff)
  then have "of_int 1 \<le> float64 (of_int n)" by (intro float64_ge_int) simp_all
  then have "1 / 1000000000 \<le> float64 (of_int n) / 1000000000"
    by (simp add: divide_right_mono)
  moreover have "of_int 17 * (2::rat) powi (- 34) \<le> 1 / 1000000000"
    by (simp add: power_int_minus field_simps)
  ultimately have "of_int 17 * 2 powi (- 34) \<le> float64 (of_int n) / 1000000000"
    by (rule order_trans[rotated])
  then show ?thesis by (intro float64_ge) simp_all
qed

lemma Seconds_gt_large:
  assumes gt: "k * Second < d" and k0: "2 ^ 23 \<le> k" and k1: "k < 2 ^ 24"
  shows "of_int k < Seconds d"
proof -
  have kpos: "0 \<le> k" using k0 by simp
  have "0 \<le> k * Second" using kpos by (simp add: Second_def)
  with gt have d0: "0 \<le> d" by simp
  define s where "s = d div Second"
  define n where "n = d mod Second"
  have S: "Seconds d = float64 (float64 (of_int s) + float64 (float64 (of_int n) / 1000000000))"
    unfolding Seconds_def sdiv_smod_nonneg[OF d0] s_def n_def ..
  have n0: "0 \<le> n" and n1: "n < 1000000000" unfolding n_def by (simp_all add: Second_def)
  have d: "d = s * 1000000000 + n" unfolding s_def n_def by (simp add: Second_def)
  have k53: "k + 1 < 2 ^ 53" using k1 by simp
  show ?thesis
  proof (cases "k + 1 \<le> s")
    case True
    then have "(k + 1) * Second \<le> d" using d n0 by (simp add: Second_def)
    then have "of_int (k + 1) \<le> Seconds d" using kpos k53 by (intro Seconds_ge) simp_all
    then show ?thesis by simp
  next
    case False
    then have "s \<le> k" by simp
    moreover have "k * 1000000000 < s * 1000000000 + n" using gt d by (simp add: Second_def)
    ultimately have sk: "s = k" and n1': "1 \<le> n" using n1 by auto
    define B where "B = float64 (float64 (of_int n) / 1000000000)"
    have b1: "of_int 17 * 2 powi (- 34) \<le> B"
      unfolding B_def using n1' by (rule frac_seconds_above_half_ulp)
    have b2: "B \<le> of_int (2 ^ 53 - 1) * 2 powi (- 53)"
      unfolding B_def using n1 by (rule frac_seconds_below_one)
    have A: "float64 (of_int k) = of_int k" using kpos k53 by (intro float64_of_int) simp
    have b1': "17 / 2 ^ 34 \<le> B" using b1 by (simp add: power_int_minus field_simps)
    have b2': "B < 1" 
    proof -
      have "of_int (2 ^ 53 - 1) * (2::rat) powi (- 53) < 1"
        by (simp add: power_int_minus field_simps)
      with b2 show ?thesis by linarith
    qed
    have kr0: "(2 ^ 23 :: rat) \<le> of_int k"
    proof -
      have "(of_int (2 ^ 23) :: rat) \<le> of_int k" using k0 by (simp only: of_int_le_iff)
      then show ?thesis by simp
    qed
    have kr1: "(of_int k :: rat) \<le> 2 ^ 24 - 1"
    proof -
      have "k \<le> 2 ^ 24 - 1" using k1 by simp
      then have "(of_int k :: rat) \<le> of_int (2 ^ 24 - 1)" by (simp only: of_int_le_iff)
      then show ?thesis by simp
    qed
    have lo: "2 powi (- 29 + 52) \<le> of_int k + B" using kr0 b1' by simp
    have hi: "of_int k + B < 2 powi (- 29 + 53)" using kr1 b2' by simp
    have "of_int (k * 2 ^ 29 + 1) * (2::rat) powi (- 29) - 2 powi (- 29) / 2
        = of_int k + 1 / 2 ^ 30"
      by (simp add: power_int_minus field_simps)
    also have "\<dots> < of_int k + B" using b1' by simp
    finally have half: "of_int (k * 2 ^ 29 + 1) * (2::rat) powi (- 29) - 2 powi (- 29) / 2
        < of_int k + B" .
    have "of_int (k * 2 ^ 29 + 1) * 2 powi (- 29) \<le> float64 (of_int k + B)"
      using lo hi half by (rule float64_ge_nearest)
    moreover have "(of_int k :: rat) < of_int (k * 2 ^ 29 + 1) * 2 powi (- 29)"
      by (simp add: power_int_minus field_simps)
    ultimately have "of_int k < float64 (of_int k + B)" by linarith
    then show ?thesis unfolding S sk A B_def .
  qed
qed

lemma Seconds_gt_24:
  assumes "k * Second < d" "0 \<le> k" "k < 2 ^ 24"
  shows "of_int k < Seconds d"
proof (cases "k < 2 ^ 23")
  case True
  with assms(1,2) show ?thesis by (rule Seconds_gt)
next
  case False
  then have "2 ^ 23 \<le> k" by simp
  with assms(1) show ?thesis using assms(3) by (rule Seconds_gt_large)
qed

lemma Seconds_whole_any:
  assumes "- 9223372036 \<le> n" "n \<le> 9223372036"
  shows "Seconds (n * Second) = of_int n"
proof -
  have a: "(n * Second) sdiv Second = n"
    by (simp add: Second_def signed_divide_int_def abs_mult sgn_mult mult_sgn_abs)
  have b: "(n * Second) smod Second = 0"
    by (simp add: Second_def signed_modulo_int_def abs_mult)
  have c: "float64 (of_int n) = of_int n" using assms by (intro float64_of_int) simp
  show ?thesis unfolding Seconds_def a b by (simp add: float64_zero c)
qed

subsection \<open>Conversions and differences\<close>

lemma truncate_rat_of_int: "truncate_rat (of_int n) = n"
  by (simp add: truncate_rat_def)

lemma uint64_of_float64_of_int:
  "0 \<le> n \<Longrightarrow> n < 2 ^ 64 \<Longrightarrow> uint64_of_float64 impl (of_int n) = word_of_int n"
  by (simp add: uint64_of_float64_def truncate_rat_of_int)

lemma Sub_Unix:
  assumes "0 \<le> a" "a < 2 ^ 63 - 62135596800" "0 \<le> b" "b < 2 ^ 63 - 62135596800"
  shows "Sub (time_Unix a) (time_Unix b) = saturate ((a - b) * Second)"
  using assms by (simp add: Sub_def time_Unix_def int64_id unixToInternal_def)

lemma saturate_small:
  assumes "- 9223372036 \<le> n" "n \<le> 9223372036"
  shows "saturate (n * Second) = n * Second"
proof -
  have "n * Second \<le> 9223372036 * Second" using assms(2) by (simp add: Second_def)
  also have "\<dots> \<le> maxDuration" by (simp add: Second_def maxDuration_def)
  finally have up: "n * Second \<le> maxDuration" .
  have "minDuration \<le> - 9223372036 * Second" by (simp add: Second_def minDuration_def)
  also have "\<dots> \<le> n * Second" using assms(1) by (simp add: Second_def)
  finally have lo: "minDuration \<le> n * Second" .
  from up lo show ?thesis by (simp add: saturate_def)
qed

lemma targetSlotOf_whole:
  assumes Tr: "uint (Time hdr) < 2 ^ 63 - 62135596800"
    and Gr: "uint (GenesisTime cfg) < 2 ^ 63 - 62135596800"
    and lo: "- 9223372036 \<le> uint (Time hdr) - uint (GenesisTime cfg)"
    and hi: "uint (Time hdr) - uint (GenesisTime cfg) \<le> 9223372036"
    and sps: "SecondsPerSlot cfg \<noteq> 0"
  shows "targetSlotOf impl cfg hdr =
    Inr (uint64_of_float64 impl (of_int (uint (Time hdr) - uint (GenesisTime cfg)))
           div SecondsPerSlot cfg)"
proof -
  define T where "T = uint (Time hdr)"
  define G where "G = uint (GenesisTime cfg)"
  have G0: "0 \<le> G" unfolding G_def by (rule uint_nonnegative)
  have T0: "0 \<le> T" unfolding T_def by (rule uint_nonnegative)
  have Tr': "T < 2 ^ 63 - 62135596800" unfolding T_def by (rule Tr)
  have Gr': "G < 2 ^ 63 - 62135596800" unfolding G_def by (rule Gr)
  have Tlt: "T < 2 ^ 63" using Tr' by simp
  have Glt: "G < 2 ^ 63" using Gr' by simp
  have sT: "sint (Time hdr) = T"
    using Tlt unfolding T_def by (rule sint_small)
  have sG: "sint (GenesisTime cfg) = G"
    using Glt unfolding G_def by (rule sint_small)
  have n0: "- 9223372036 \<le> T - G" using lo unfolding T_def G_def .
  have n1: "T - G \<le> 9223372036" using hi unfolding T_def G_def .
  have sub: "Sub (time_Unix T) (time_Unix G) = (T - G) * Second"
    using Sub_Unix[OF T0 Tr' G0 Gr'] saturate_small[OF n0 n1] by simp
  show ?thesis
    unfolding targetSlotOf_def Let_def sT sG sub Seconds_whole_any[OF n0 n1]
      T_def[symmetric] G_def[symmetric]
    using sps by simp
qed

lemma targetSlotOf_in_range:
  assumes g: "GenesisTime cfg \<le> Time hdr"
    and r: "uint (Time hdr) < 2 ^ 63 - 62135596800"
    and d: "uint (Time hdr) - uint (GenesisTime cfg) \<le> 9223372036"
    and sps: "SecondsPerSlot cfg \<noteq> 0"
  shows "targetSlotOf impl cfg hdr = Inr ((Time hdr - GenesisTime cfg) div SecondsPerSlot cfg)"
proof -
  have GT: "uint (GenesisTime cfg) \<le> uint (Time hdr)" using g by (simp add: word_le_def)
  have Gr: "uint (GenesisTime cfg) < 2 ^ 63 - 62135596800" using GT r by linarith
  have n0: "0 \<le> uint (Time hdr) - uint (GenesisTime cfg)" using GT by simp
  then have lo: "- 9223372036 \<le> uint (Time hdr) - uint (GenesisTime cfg)" by linarith
  have n2: "uint (Time hdr) - uint (GenesisTime cfg) < 2 ^ 64" using d by simp
  have conv: "uint64_of_float64 impl (of_int (uint (Time hdr) - uint (GenesisTime cfg)))
      = word_of_int (uint (Time hdr) - uint (GenesisTime cfg))"
    using n0 n2 by (rule uint64_of_float64_of_int)
  have w: "(word_of_int (uint (Time hdr) - uint (GenesisTime cfg)) :: 64 word) = Time hdr - GenesisTime cfg"
    by simp
  show ?thesis
    unfolding targetSlotOf_whole[OF r Gr lo d sps] conv w ..
qed

lemma uint64_of_float64_negative:
  "n < 0 \<Longrightarrow> uint64_of_float64 impl (of_int n) = impl (of_int n)"
  by (simp add: uint64_of_float64_def truncate_rat_of_int)

lemma targetSlotOf_before_genesis:
  assumes g: "Time hdr < GenesisTime cfg"
    and r: "uint (GenesisTime cfg) < 2 ^ 63 - 62135596800"
    and d: "uint (GenesisTime cfg) - uint (Time hdr) \<le> 9223372036"
    and sps: "SecondsPerSlot cfg \<noteq> 0"
  shows "targetSlotOf impl cfg hdr =
    Inr (impl (of_int (uint (Time hdr) - uint (GenesisTime cfg))) div SecondsPerSlot cfg)"
proof -
  have TG: "uint (Time hdr) < uint (GenesisTime cfg)" using g by (simp add: word_less_def)
  have Tr: "uint (Time hdr) < 2 ^ 63 - 62135596800" using TG r by linarith
  have neg: "uint (Time hdr) - uint (GenesisTime cfg) < 0" using TG by simp
  have lo: "- 9223372036 \<le> uint (Time hdr) - uint (GenesisTime cfg)" using d by linarith
  have hi: "uint (Time hdr) - uint (GenesisTime cfg) \<le> 9223372036" using neg by linarith
  show ?thesis
    unfolding targetSlotOf_whole[OF Tr r lo hi sps] uint64_of_float64_negative[OF neg] ..
qed

lemma targetSlotOf_returns:
  "SecondsPerSlot cfg \<noteq> 0 \<Longrightarrow> \<exists>slot. targetSlotOf impl cfg hdr = Inr slot"
  by (simp add: targetSlotOf_def Let_def)

lemma Seconds_maxDuration:
  "9223372036 \<le> Seconds maxDuration \<and> Seconds maxDuration \<le> 9223372036 + 7 / 8"
proof
  have "of_int 9223372036 \<le> Seconds maxDuration"
    by (intro Seconds_ge) (simp_all add: maxDuration_def Second_def)
  then show "9223372036 \<le> Seconds maxDuration" by simp
next
  have d0: "0 \<le> maxDuration" by (simp add: maxDuration_def)
  have s: "maxDuration div Second = 9223372036" by (simp add: maxDuration_def Second_def)
  have n: "maxDuration mod Second = 854775807" by (simp add: maxDuration_def Second_def)
  have "float64 (of_int 854775807) \<le> of_int 854775807" by (intro float64_le_int) simp_all
  then have "float64 (of_int 854775807) / 1000000000 \<le> of_int 7 * 2 powi (- 3)"
    by (simp add: power_int_minus field_simps)
  then have "float64 (float64 (of_int 854775807) / 1000000000) \<le> of_int 7 * 2 powi (- 3)"
    by (intro float64_le) simp_all
  moreover have "float64 (of_int 9223372036) \<le> of_int 9223372036"
    by (intro float64_le_int) simp_all
  ultimately have "float64 (of_int 9223372036) + float64 (float64 (of_int 854775807) / 1000000000)
      \<le> of_int 73786976295 * 2 powi (- 3)"
    by (simp add: power_int_minus field_simps)
  then have "float64 (float64 (of_int 9223372036)
        + float64 (float64 (of_int 854775807) / 1000000000))
      \<le> of_int 73786976295 * 2 powi (- 3)"
    by (intro float64_le) simp_all
  then show "Seconds maxDuration \<le> 9223372036 + 7 / 8"
    unfolding Seconds_def sdiv_smod_nonneg[OF d0] s n by (simp add: power_int_minus field_simps)
qed

lemma truncate_maxDuration_seconds: "truncate_rat (Seconds maxDuration) = 9223372036"
proof -
  from Seconds_maxDuration have "0 \<le> Seconds maxDuration" by linarith
  moreover have "\<lfloor>Seconds maxDuration\<rfloor> = 9223372036"
    using Seconds_maxDuration by (simp add: floor_eq_iff)
  ultimately show ?thesis by (simp add: truncate_rat_def)
qed

lemma floor_on_words:
  fixes t g sps :: "64 word"
  assumes "g \<le> t"
  shows "unat ((t - g) div sps) = (unat t - unat g) div unat sps"
  using assms by (simp add: unat_div unat_sub)

section \<open>From the head block's timestamp to a slot\<close>

lemma GetHeadSlot_targetSlotOf:
  "HeaderByNumber sv = Inr hdr \<Longrightarrow> GetHeadSlot impl sv m = targetSlotOf impl (BeaconConfig m) hdr"
  by (simp add: GetHeadSlot_def)

lemma UpdateStateToHead_targetSlotOf:
  "HeaderByNumber sv = Inr hdr \<Longrightarrow> targetSlotOf impl (BeaconConfig m) hdr = Inr slot \<Longrightarrow>
   UpdateStateToHead impl sv m = updateState sv m slot"
  by (simp add: UpdateStateToHead_def)

text \<open>
  C2 (as the code has it). Neither GetHeadSlot nor UpdateStateToHead compares the
  timestamp with the genesis time, and no ConfigurationError exists. Whenever the header
  fetch succeeds and SecondsPerSlot is not 0 they compute a slot and return it (or build
  the state at it), also for a timestamp before genesis. For such a timestamp, with the
  genesis time below \<open>2 ^ 63 - 62135596800\<close> and at most 9223372036 seconds ahead, the
  slot is the quotient by SecondsPerSlot of the implementation's \<^verbatim>\<open>uint64\<close> conversion
  of the negative number of seconds.
\<close>

theorem C2_no_genesis_check:
  assumes "HeaderByNumber sv = Inr hdr"
    and "SecondsPerSlot (BeaconConfig m) \<noteq> 0"
  shows "(\<exists>slot. GetHeadSlot impl sv m = Inr slot
            \<and> UpdateStateToHead impl sv m = updateState sv m slot)
       \<and> (Time hdr < GenesisTime (BeaconConfig m)
            \<and> uint (GenesisTime (BeaconConfig m)) < 2 ^ 63 - 62135596800
            \<and> uint (GenesisTime (BeaconConfig m)) - uint (Time hdr) \<le> 9223372036 \<longrightarrow>
          GetHeadSlot impl sv m =
            Inr (impl (of_int (uint (Time hdr) - uint (GenesisTime (BeaconConfig m))))
                 div SecondsPerSlot (BeaconConfig m)))"
proof (intro conjI impI)
  from targetSlotOf_returns[OF assms(2)]
  obtain slot where "targetSlotOf impl (BeaconConfig m) hdr = Inr slot" by blast
  then show "\<exists>slot. GetHeadSlot impl sv m = Inr slot
      \<and> UpdateStateToHead impl sv m = updateState sv m slot"
    using GetHeadSlot_targetSlotOf[OF assms(1)] UpdateStateToHead_targetSlotOf[OF assms(1)]
    by simp
next
  assume h: "Time hdr < GenesisTime (BeaconConfig m)
      \<and> uint (GenesisTime (BeaconConfig m)) < 2 ^ 63 - 62135596800
      \<and> uint (GenesisTime (BeaconConfig m)) - uint (Time hdr) \<le> 9223372036"
  then have a: "Time hdr < GenesisTime (BeaconConfig m)"
    and b: "uint (GenesisTime (BeaconConfig m)) < 2 ^ 63 - 62135596800"
    and c: "uint (GenesisTime (BeaconConfig m)) - uint (Time hdr) \<le> 9223372036"
    by blast+
  show "GetHeadSlot impl sv m =
      Inr (impl (of_int (uint (Time hdr) - uint (GenesisTime (BeaconConfig m))))
           div SecondsPerSlot (BeaconConfig m))"
    unfolding GetHeadSlot_targetSlotOf[OF assms(1)]
    using a b c assms(2) by (rule targetSlotOf_before_genesis)
qed

lemma example_header:
  "HeaderByNumber (example_services t bc) = Inr \<lparr>Time = t, Number = 0\<rparr>"
  by (simp add: example_services_def)

lemma example_config:
  "GenesisTime (BeaconConfig example_manager) = 1606824023"
  "SecondsPerSlot (BeaconConfig example_manager) = 12"
  by (simp_all add: example_manager_def mainnet_config_def)

theorem C2_no_genesis_check_witness:
  "(\<exists>slot. GetHeadSlot arm64_conv (example_services 1606824011 no_blocks) example_manager = Inr slot
      \<and> UpdateStateToHead arm64_conv (example_services 1606824011 no_blocks) example_manager
          = updateState (example_services 1606824011 no_blocks) example_manager slot)
   \<and> GetHeadSlot arm64_conv (example_services 1606824011 no_blocks) example_manager
       = Inr (arm64_conv (- 12) div 12)"
proof -
  have sps: "SecondsPerSlot (BeaconConfig example_manager) \<noteq> 0"
    by (simp add: example_config)
  have h: "Time \<lparr>Time = 1606824011, Number = 0\<rparr> < GenesisTime (BeaconConfig example_manager)
      \<and> uint (GenesisTime (BeaconConfig example_manager)) < 2 ^ 63 - 62135596800
      \<and> uint (GenesisTime (BeaconConfig example_manager))
          - uint (Time \<lparr>Time = 1606824011, Number = 0\<rparr>) \<le> 9223372036"
    by (simp add: example_config)
  have d: "uint (Time \<lparr>Time = 1606824011, Number = 0\<rparr>)
      - uint (GenesisTime (BeaconConfig example_manager)) = - 12"
    by (simp add: example_config)
  from C2_no_genesis_check[OF example_header sps, of arm64_conv 1606824011 no_blocks] h
  show ?thesis unfolding d by (auto simp: example_config)
qed

text \<open>
  The claim C2 as stated fails: with the genesis time of the main network and a head
  block stamped 12 seconds before it, GetHeadSlot returns a slot number and a nil error,
  on amd64 (where \<^verbatim>\<open>uint64(-12.0)\<close> is \<open>2 ^ 64 - 12\<close>) and on arm64 (where it is 0).
\<close>

theorem C2_counterexample:
  "GetHeadSlot amd64_conv (example_services 1606824011 no_blocks) example_manager
     = Inr 1537228672809129300
   \<and> GetHeadSlot arm64_conv (example_services 1606824011 no_blocks) example_manager = Inr 0"
proof -
  have a: "Time \<lparr>Time = 1606824011, Number = 0\<rparr> < GenesisTime (BeaconConfig example_manager)"
    by (simp add: example_config)
  have b: "uint (GenesisTime (BeaconConfig example_manager)) < 2 ^ 63 - 62135596800"
    by (simp add: example_config)
  have c: "uint (GenesisTime (BeaconConfig example_manager))
      - uint (Time \<lparr>Time = 1606824011, Number = 0\<rparr>) \<le> 9223372036"
    by (simp add: example_config)
  have sps: "SecondsPerSlot (BeaconConfig example_manager) \<noteq> 0"
    by (simp add: example_config)
  have d: "uint (Time \<lparr>Time = 1606824011, Number = 0\<rparr>)
      - uint (GenesisTime (BeaconConfig example_manager)) = - 12"
    by (simp add: example_config)
  have t: "targetSlotOf impl (BeaconConfig example_manager) \<lparr>Time = 1606824011, Number = 0\<rparr>
      = Inr (impl (- 12) div 12)" for impl
    using targetSlotOf_before_genesis[OF a b c sps, of impl] unfolding d
    by (simp add: example_config)
  have amd: "amd64_conv (- 12) div 12 = 1537228672809129300"
    by (simp add: amd64_conv_def truncate_rat_def)
  have arm: "arm64_conv (- 12) div 12 = 0"
    by (simp add: arm64_conv_def)
  show ?thesis
    unfolding GetHeadSlot_targetSlotOf[OF example_header] t amd arm by simp
qed

text \<open>
  C4 (as the code has it). For a timestamp \<open>t\<close> at or after the genesis time \<open>g\<close>, with
  \<open>t\<close> below \<open>2 ^ 63 - 62135596800\<close>, \<open>t - g\<close> at most 9223372036 seconds (the largest
  whole number of seconds of a \<^verbatim>\<open>time.Duration\<close>) and SecondsPerSlot not 0, GetHeadSlot
  returns exactly \<open>(t - g) div SecondsPerSlot\<close>, and UpdateStateToHead builds the state
  at that slot. With 12 seconds per slot, 123 seconds after genesis is slot 10.
\<close>

theorem C4_slot_of_timestamp:
  assumes "HeaderByNumber sv = Inr hdr"
    and "GenesisTime (BeaconConfig m) \<le> Time hdr"
    and "uint (Time hdr) < 2 ^ 63 - 62135596800"
    and "uint (Time hdr) - uint (GenesisTime (BeaconConfig m)) \<le> 9223372036"
    and "SecondsPerSlot (BeaconConfig m) \<noteq> 0"
  shows "GetHeadSlot impl sv m
           = Inr ((Time hdr - GenesisTime (BeaconConfig m)) div SecondsPerSlot (BeaconConfig m))
       \<and> unat ((Time hdr - GenesisTime (BeaconConfig m)) div SecondsPerSlot (BeaconConfig m))
           = (unat (Time hdr) - unat (GenesisTime (BeaconConfig m)))
               div unat (SecondsPerSlot (BeaconConfig m))
       \<and> UpdateStateToHead impl sv m
           = updateState sv m
               ((Time hdr - GenesisTime (BeaconConfig m)) div SecondsPerSlot (BeaconConfig m))"
proof -
  have t: "targetSlotOf impl (BeaconConfig m) hdr
      = Inr ((Time hdr - GenesisTime (BeaconConfig m)) div SecondsPerSlot (BeaconConfig m))"
    using assms(2-5) by (rule targetSlotOf_in_range)
  show ?thesis
    using t GetHeadSlot_targetSlotOf[OF assms(1), of impl m]
      UpdateStateToHead_targetSlotOf[OF assms(1) t] floor_on_words[OF assms(2)]
    by simp
qed

theorem C4_slot_of_timestamp_witness:
  "GetHeadSlot amd64_conv (example_services (1606824023 + 123) no_blocks) example_manager = Inr 10
   \<and> UpdateStateToHead amd64_conv (example_services (1606824023 + 123) no_blocks) example_manager
       = updateState (example_services (1606824023 + 123) no_blocks) example_manager 10"
proof -
  have a: "GenesisTime (BeaconConfig example_manager) \<le> Time \<lparr>Time = 1606824023 + 123, Number = 0\<rparr>"
    by (simp add: example_config)
  have b: "uint (Time \<lparr>Time = 1606824023 + 123, Number = 0\<rparr>) < 2 ^ 63 - 62135596800"
    by simp
  have c: "uint (Time \<lparr>Time = 1606824023 + 123, Number = 0\<rparr>)
      - uint (GenesisTime (BeaconConfig example_manager)) \<le> 9223372036"
    by (simp add: example_config)
  have sps: "SecondsPerSlot (BeaconConfig example_manager) \<noteq> 0"
    by (simp add: example_config)
  have q: "(Time \<lparr>Time = 1606824023 + 123, Number = 0\<rparr> - GenesisTime (BeaconConfig example_manager))
      div SecondsPerSlot (BeaconConfig example_manager) = 10"
    by (simp add: example_config)
  from C4_slot_of_timestamp[OF example_header a b c sps, of amd64_conv no_blocks]
  show ?thesis unfolding q by simp
qed

text \<open>
  The claim C4 as stated fails for a timestamp more than 9223372036 seconds after
  genesis: \<^verbatim>\<open>Sub\<close> saturates at the largest Duration. With the genesis time of the main
  network, 12 seconds per slot and a head block stamped \<open>10 ^ 10\<close> seconds after genesis,
  GetHeadSlot returns 768614336, while \<open>10 ^ 10 div 12\<close> is 833333333.
\<close>

theorem C4_counterexample:
  "GetHeadSlot amd64_conv (example_services (1606824023 + 10000000000) no_blocks) example_manager
     = Inr 768614336
   \<and> (10000000000 :: nat) div 12 = 833333333"
proof -
  have sub: "Sub (time_Unix (sint (1606824023 + 10000000000 :: 64 word)))
                 (time_Unix (sint (1606824023 :: 64 word))) = maxDuration"
    by (simp add: Sub_def time_Unix_def int64_def unixToInternal_def saturate_def maxDuration_def
        minDuration_def Second_def)
  have cv: "uint64_of_float64 amd64_conv (Seconds maxDuration) = 9223372036"
    unfolding uint64_of_float64_def truncate_maxDuration_seconds Let_def by simp
  have q: "(9223372036 :: 64 word) div 12 = 768614336" by simp
  have t: "targetSlotOf amd64_conv (BeaconConfig example_manager)
      \<lparr>Time = 1606824023 + 10000000000, Number = 0\<rparr> = Inr 768614336"
    unfolding targetSlotOf_def Let_def example_config Header.simps sub cv q
    by simp
  show ?thesis
    unfolding GetHeadSlot_targetSlotOf[OF example_header] t by simp
qed

section \<open>The latest snapshot\<close>

lemma publishes_updateState: "publishes m (updateState sv m slot)"
  by (simp add: publishes_def updateState_def GetLatestState_def split: sum.splits)

lemma publishes_unchanged: "publishes m (Inl err, m)"
  by (simp add: publishes_def)

lemma publishes_UpdateStateToFinalized_loop:
  assumes "UpdateStateToFinalized_loop sv m s = Some res"
  shows "publishes m res"
  using USTF_Some_cases[OF assms] publishes_updateState[of m sv] publishes_unchanged[of m]
  by auto

text \<open>
  C9. A new manager has no latest snapshot. Every state update (updateState and the three
  entry points that end in it) leaves in the manager the snapshot it returns when the build
  succeeded, and leaves the latest snapshot as it was when it returns an error; a failed
  build returns the manager unchanged.
\<close>

theorem C9_latest_state:
  "(NewNetworkStateManager sv = Inr m0 \<longrightarrow> GetLatestState m0 = None)
   \<and> publishes m (updateState sv m slot)
   \<and> publishes m (UpdateStateToSlot sv m slot)
   \<and> publishes m (UpdateStateToHead impl sv m)
   \<and> (UpdateStateToFinalized sv m = Some res \<longrightarrow> publishes m res)
   \<and> (CreateNetworkState sv slot = Inl err \<longrightarrow> updateState sv m slot = (Inl err, m))
   \<and> (CreateNetworkState sv slot = Inr state \<longrightarrow>
        GetLatestState (snd (updateState sv m slot)) = Some state)"
proof (intro conjI impI)
  assume "NewNetworkStateManager sv = Inr m0"
  then show "GetLatestState m0 = None"
    by (auto simp: NewNetworkStateManager_def GetLatestState_def split: sum.splits)
next
  show "publishes m (updateState sv m slot)" by (rule publishes_updateState)
next
  show "publishes m (UpdateStateToSlot sv m slot)"
    unfolding UpdateStateToSlot_def by (rule publishes_updateState)
next
  show "publishes m (UpdateStateToHead impl sv m)"
    unfolding UpdateStateToHead_def
    by (simp add: publishes_updateState publishes_unchanged split: sum.splits)
next
  assume "UpdateStateToFinalized sv m = Some res"
  then show "publishes m res"
    unfolding UpdateStateToFinalized_def
    by (auto simp: publishes_unchanged publishes_UpdateStateToFinalized_loop split: sum.splits)
next
  assume "CreateNetworkState sv slot = Inl err"
  then show "updateState sv m slot = (Inl err, m)" by (simp add: updateState_def)
next
  assume "CreateNetworkState sv slot = Inr state"
  then show "GetLatestState (snd (updateState sv m slot)) = Some state"
    by (simp add: updateState_def GetLatestState_def)
qed

theorem C9_latest_state_witness:
  "GetLatestState example_manager = None
   \<and> publishes example_manager (Inr 7, example_manager\<lparr>latestState := Some 7\<rparr>)
   \<and> updateState (example_services 0 (blocks_up_to 7)) example_manager 4
       = (Inl (ClientError ''build failed''), example_manager)
   \<and> GetLatestState (snd (updateState (example_services 0 (blocks_up_to 7)) example_manager 7))
       = Some 7"
proof -
  have sv: "GetBeaconBlock (example_services 0 (blocks_up_to 7)) = blocks_up_to 7"
    by (simp add: example_services_def)
  have n: "NewNetworkStateManager (example_services 0 (blocks_up_to 7)) = Inr example_manager"
    by (simp add: NewNetworkStateManager_def example_services_def example_manager_def)
  have a: "(7 :: 64 word) \<le> 31" by simp
  have b: "GetBeaconBlock (example_services 0 (blocks_up_to 7)) 7 = Inr (7, True)"
    by (simp add: sv blocks_up_to_def)
  have c: "\<forall>k. 7 < k \<and> k \<le> 31 \<longrightarrow> slot_missing (GetBeaconBlock (example_services 0 (blocks_up_to 7)) k)"
    by (auto simp: sv blocks_up_to_def slot_missing_def)
  have u: "updateState (example_services 0 (blocks_up_to 7)) example_manager 7
      = (Inr 7, example_manager\<lparr>latestState := Some 7\<rparr>)"
    by (simp add: updateState_def example_services_def)
  have t: "finalizedTargetSlot (BeaconConfig example_manager) \<lparr>FinalizedEpoch = 0\<rparr> = 31"
    by (simp add: finalizedTargetSlot_def example_manager_def mainnet_config_def)
  have h: "GetBeaconHead (example_services 0 (blocks_up_to 7)) = Inr \<lparr>FinalizedEpoch = 0\<rparr>"
    by (simp add: example_services_def)
  have f: "UpdateStateToFinalized (example_services 0 (blocks_up_to 7)) example_manager
      = Some (Inr 7, example_manager\<lparr>latestState := Some 7\<rparr>)"
    unfolding UpdateStateToFinalized_def h
    using USTF_nearest[OF a b c, of example_manager] by (simp add: t u)
  have c4: "CreateNetworkState (example_services 0 (blocks_up_to 7)) 4
      = Inl (ClientError ''build failed'')"
    by (simp add: example_services_def)
  have c7: "CreateNetworkState (example_services 0 (blocks_up_to 7)) 7 = Inr 7"
    by (simp add: example_services_def)
  from C9_latest_state[where sv = "example_services 0 (blocks_up_to 7)" and ?m0.0 = example_manager
      and m = example_manager and slot = 4 and err = "ClientError ''build failed''"
      and res = "(Inr 7, example_manager\<lparr>latestState := Some 7\<rparr>)"]
    C9_latest_state[where sv = "example_services 0 (blocks_up_to 7)" and m = example_manager
      and slot = 7 and state = 7]
    n f c4 c7
  show ?thesis by blast
qed

section \<open>The passes of the beacon wait\<close>

lemma waitBeacon_loop_continue:
  "waitBeacon_body t s (polls i) = Continue () \<Longrightarrow>
   waitBeacon_loop t s polls i = waitBeacon_loop t s polls (Suc i)"
  by (subst waitBeacon_loop.simps) simp

lemma waitBeacon_loop_return:
  "waitBeacon_body t s (polls i) = Return r \<Longrightarrow> waitBeacon_loop t s polls i = Some r"
  by (subst waitBeacon_loop.simps) simp

lemma waitBeacon_loop_skip:
  "(\<forall>j<n. waitBeacon_body t s (polls (i + j)) = Continue ()) \<Longrightarrow>
   waitBeacon_loop t s polls i = waitBeacon_loop t s polls (i + n)"
proof (induction n)
  case 0
  then show ?case by simp
next
  case (Suc n)
  then have IH: "waitBeacon_loop t s polls i = waitBeacon_loop t s polls (i + n)" by simp
  from Suc.prems have "waitBeacon_body t s (polls (i + n)) = Continue ()" by simp
  then have "waitBeacon_loop t s polls (i + n) = waitBeacon_loop t s polls (Suc (i + n))"
    by (rule waitBeacon_loop_continue)
  with IH show ?case by simp
qed

lemma waitBeacon_loop_Some:
  assumes "waitBeacon_loop t s polls i = Some r"
  shows "\<exists>n. (\<forall>j<n. waitBeacon_body t s (polls (i + j)) = Continue ())
             \<and> waitBeacon_body t s (polls (i + n)) = Return r"
  using assms
proof (rule waitBeacon_loop.raw_induct
    [rotated 1, where P = "\<lambda>t s polls i r.
       \<exists>n. (\<forall>j<n. waitBeacon_body t s (polls (i + j)) = Continue ())
             \<and> waitBeacon_body t s (polls (i + n)) = Return r"])
  fix f :: "int \<Rightarrow> int \<Rightarrow> (nat \<Rightarrow> beacon_poll) \<Rightarrow> nat \<Rightarrow> (error + bool) option"
  fix t s polls i r
  assume IH: "\<And>t s polls i r. f t s polls i = Some r \<Longrightarrow>
      \<exists>n. (\<forall>j<n. waitBeacon_body t s (polls (i + j)) = Continue ())
           \<and> waitBeacon_body t s (polls (i + n)) = Return r"
  assume eq: "(case waitBeacon_body t s (polls i) of
      Return r \<Rightarrow> Some r | Continue u \<Rightarrow> f t s polls (Suc i)) = Some r"
  show "\<exists>n. (\<forall>j<n. waitBeacon_body t s (polls (i + j)) = Continue ())
           \<and> waitBeacon_body t s (polls (i + n)) = Return r"
  proof (cases "waitBeacon_body t s (polls i)")
    case (Return r')
    with eq have "waitBeacon_body t s (polls (i + 0)) = Return r" by simp
    then show ?thesis by (intro exI[of _ 0]) simp
  next
    case (Continue u)
    with eq have "f t s polls (Suc i) = Some r" by simp
    from IH[OF this] obtain n where
      n1: "\<forall>j<n. waitBeacon_body t s (polls (Suc i + j)) = Continue ()" and
      n2: "waitBeacon_body t s (polls (Suc i + n)) = Return r" by blast
    have "\<forall>j<Suc n. waitBeacon_body t s (polls (i + j)) = Continue ()"
    proof (intro allI impI)
      fix j assume j: "j < Suc n"
      show "waitBeacon_body t s (polls (i + j)) = Continue ()"
      proof (cases j)
        case 0
        with Continue show ?thesis by simp
      next
        case (Suc j')
        with j n1 show ?thesis by simp
      qed
    qed
    moreover from n2 have "waitBeacon_body t s (polls (i + Suc n)) = Return r" by simp
    ultimately show ?thesis by blast
  qed
qed

lemma waitBeacon_loop_iff:
  "waitBeacon_loop t s polls 0 = Some r \<longleftrightarrow>
   (\<exists>n. (\<forall>j<n. waitBeacon_body t s (polls j) = Continue ())
        \<and> waitBeacon_body t s (polls n) = Return r)"
proof
  assume "waitBeacon_loop t s polls 0 = Some r"
  from waitBeacon_loop_Some[OF this] show
    "\<exists>n. (\<forall>j<n. waitBeacon_body t s (polls j) = Continue ())
        \<and> waitBeacon_body t s (polls n) = Return r" by simp
next
  assume "\<exists>n. (\<forall>j<n. waitBeacon_body t s (polls j) = Continue ())
        \<and> waitBeacon_body t s (polls n) = Return r"
  then obtain n where n1: "\<forall>j<n. waitBeacon_body t s (polls (0 + j)) = Continue ()"
    and n2: "waitBeacon_body t s (polls n) = Return r" by auto
  have "waitBeacon_loop t s polls 0 = waitBeacon_loop t s polls (0 + n)"
    using n1 by (rule waitBeacon_loop_skip)
  also have "\<dots> = Some r" using n2 by (simp add: waitBeacon_loop_return)
  finally show "waitBeacon_loop t s polls 0 = Some r" .
qed

lemma waitBeacon_loop_forever:
  assumes "\<forall>j. waitBeacon_body t s (polls j) = Continue ()"
  shows "waitBeacon_loop t s polls 0 = None"
proof (cases "waitBeacon_loop t s polls 0")
  case None
  then show ?thesis .
next
  case (Some r)
  then obtain n where "waitBeacon_body t s (polls n) = Return r"
    unfolding waitBeacon_loop_iff by blast
  with assms show ?thesis by simp
qed

lemma waitBeacon_body_syncing:
  "beacon_still_syncing p \<Longrightarrow> \<not> (0 < timeout \<and> timeout < int64 (Unix (time_Now (clk_now p)) - s)) \<Longrightarrow>
   waitBeacon_body timeout s p = Continue ()"
  by (auto simp: waitBeacon_body_def beacon_still_syncing_def split: sum.splits)

lemma waitBeacon_body_timeout:
  "0 < timeout \<Longrightarrow> timeout < int64 (Unix (time_Now (clk_now p)) - s) \<Longrightarrow>
   waitBeacon_body timeout s p = Return (Inr False)"
  by (simp add: waitBeacon_body_def)

lemma waitBeacon_body_no_timeout:
  "waitBeacon_body 0 s p =
     (case GetSyncStatus p of
        Inl err \<Rightarrow> Return (Inl err)
      | Inr syncStatus \<Rightarrow> if Syncing syncStatus then Continue () else Return (Inr True))"
  by (simp add: waitBeacon_body_def)

lemma waitBeacon_body_error:
  "\<not> (0 < timeout \<and> timeout < int64 (Unix (time_Now (clk_now p)) - s)) \<Longrightarrow>
   GetSyncStatus p = Inl e \<Longrightarrow> waitBeacon_body timeout s p = Return (Inl e)"
  by (auto simp: waitBeacon_body_def)

lemma waitBeaconClientSynced_reaches:
  assumes "waitBeacon_reaches w timeout n"
  shows "waitBeaconClientSynced w verbose timeout
     = waitBeacon_loop timeout (Unix (time_Now (clk_start_b w))) (beacon_polls w) n"
proof -
  from assms obtain bc where bc: "GetBeaconClient w = Inr bc"
    and c: "\<forall>j<n. waitBeacon_body timeout (Unix (time_Now (clk_start_b w))) (beacon_polls w (0 + j))
                 = Continue ()"
    by (auto simp: waitBeacon_reaches_def split: sum.splits)
  from waitBeacon_loop_skip[OF c] bc show ?thesis
    by (simp add: waitBeaconClientSynced_def)
qed

section \<open>The passes of the execution wait\<close>

lemma waitEth_loop_continue:
  "waitEth_body t s (polls i) st = Continue st' \<Longrightarrow>
   waitEth_loop t s polls i st = waitEth_loop t s polls (Suc i) st'"
  by (subst waitEth_loop.simps) simp

lemma waitEth_loop_return:
  "waitEth_body t s (polls i) st = Return r \<Longrightarrow> waitEth_loop t s polls i st = Some r"
  by (subst waitEth_loop.simps) simp

lemma waitEth_state_Suc:
  "waitEth_state t s polls st0 (Suc n) = Some st' \<longleftrightarrow>
   (\<exists>st. waitEth_state t s polls st0 n = Some st \<and> waitEth_body t s (polls n) st = Continue st')"
  by (auto split: option.splits step.splits)

lemma waitEth_loop_from_state:
  "waitEth_state t s polls st0 n = Some st \<Longrightarrow>
   waitEth_loop t s polls 0 st0 = waitEth_loop t s polls n st"
proof (induction n arbitrary: st)
  case 0
  then show ?case by simp
next
  case (Suc n)
  from Suc.prems obtain st1 where
    a: "waitEth_state t s polls st0 n = Some st1" and
    b: "waitEth_body t s (polls n) st1 = Continue st"
    unfolding waitEth_state_Suc by blast
  have "waitEth_loop t s polls 0 st0 = waitEth_loop t s polls n st1" using a by (rule Suc.IH)
  also have "\<dots> = waitEth_loop t s polls (Suc n) st" using b by (rule waitEth_loop_continue)
  finally show ?case .
qed

lemma waitEth_loop_Some_gen:
  assumes "waitEth_loop t s polls i st = Some r"
  shows "\<forall>st0. waitEth_state t s polls st0 i = Some st \<longrightarrow>
           (\<exists>n st'. waitEth_state t s polls st0 n = Some st'
                    \<and> waitEth_body t s (polls n) st' = Return r)"
  using assms
proof (rule waitEth_loop.raw_induct
    [rotated 1, where P = "\<lambda>t s polls i st r.
       \<forall>st0. waitEth_state t s polls st0 i = Some st \<longrightarrow>
           (\<exists>n st'. waitEth_state t s polls st0 n = Some st'
                    \<and> waitEth_body t s (polls n) st' = Return r)"])
  fix f :: "int \<Rightarrow> go_time \<Rightarrow> (nat \<Rightarrow> eth_poll) \<Rightarrow> nat \<Rightarrow> eth_loop_state \<Rightarrow> (error + bool) option"
  fix t s polls i st r
  assume IH: "\<And>t s polls i st r. f t s polls i st = Some r \<Longrightarrow>
      \<forall>st0. waitEth_state t s polls st0 i = Some st \<longrightarrow>
           (\<exists>n st'. waitEth_state t s polls st0 n = Some st'
                    \<and> waitEth_body t s (polls n) st' = Return r)"
  assume eq: "(case waitEth_body t s (polls i) st of
      Return r \<Rightarrow> Some r | Continue st' \<Rightarrow> f t s polls (Suc i) st') = Some r"
  show "\<forall>st0. waitEth_state t s polls st0 i = Some st \<longrightarrow>
           (\<exists>n st'. waitEth_state t s polls st0 n = Some st'
                    \<and> waitEth_body t s (polls n) st' = Return r)"
  proof (intro allI impI)
    fix st0
    assume reach: "waitEth_state t s polls st0 i = Some st"
    show "\<exists>n st'. waitEth_state t s polls st0 n = Some st'
                    \<and> waitEth_body t s (polls n) st' = Return r"
    proof (cases "waitEth_body t s (polls i) st")
      case (Return r')
      with eq have "waitEth_body t s (polls i) st = Return r" by simp
      with reach show ?thesis by blast
    next
      case (Continue st1)
      with eq have "f t s polls (Suc i) st1 = Some r" by simp
      moreover from reach Continue have "waitEth_state t s polls st0 (Suc i) = Some st1"
        by simp
      ultimately show ?thesis using IH by blast
    qed
  qed
qed

lemma waitEth_loop_iff:
  "waitEth_loop t s polls 0 st0 = Some r \<longleftrightarrow>
   (\<exists>n st. waitEth_state t s polls st0 n = Some st \<and> waitEth_body t s (polls n) st = Return r)"
proof
  assume "waitEth_loop t s polls 0 st0 = Some r"
  from waitEth_loop_Some_gen[OF this] show
    "\<exists>n st. waitEth_state t s polls st0 n = Some st \<and> waitEth_body t s (polls n) st = Return r"
    by simp
next
  assume "\<exists>n st. waitEth_state t s polls st0 n = Some st \<and> waitEth_body t s (polls n) st = Return r"
  then obtain n st where a: "waitEth_state t s polls st0 n = Some st"
    and b: "waitEth_body t s (polls n) st = Return r" by blast
  have "waitEth_loop t s polls 0 st0 = waitEth_loop t s polls n st"
    using a by (rule waitEth_loop_from_state)
  also have "\<dots> = Some r" using b by (rule waitEth_loop_return)
  finally show "waitEth_loop t s polls 0 st0 = Some r" .
qed

lemma waitEth_state_unique_return:
  assumes "waitEth_state t s polls st0 n = Some st" "waitEth_body t s (polls n) st = Return r"
  shows "waitEth_state t s polls st0 (Suc n) = None"
  using assms by simp

lemma waitEth_loop_forever:
  assumes "\<forall>n. waitEth_state t s polls st0 n \<noteq> None"
  shows "waitEth_loop t s polls 0 st0 = None"
proof (cases "waitEth_loop t s polls 0 st0")
  case None
  then show ?thesis .
next
  case (Some r)
  then obtain n st where "waitEth_state t s polls st0 n = Some st"
    and "waitEth_body t s (polls n) st = Return r"
    unfolding waitEth_loop_iff by blast
  then have "waitEth_state t s polls st0 (Suc n) = None" by (rule waitEth_state_unique_return)
  with assms show ?thesis by blast
qed

subsection \<open>One pass\<close>

lemma checkExecutionClientStatus_waits:
  "waits_on_a_client ecMgr \<Longrightarrow> \<exists>c. checkExecutionClientStatus ecMgr = Inr (False, Some c)"
  by (auto simp: waits_on_a_client_def split: sum.splits)

lemma refreshStatus_syncing:
  assumes "waits_on_a_client (refresh_status p)" "clientToCheck st \<noteq> None"
  shows "\<exists>st'. refreshStatus p st = Continue st' \<and> clientToCheck st' \<noteq> None"
proof -
  from checkExecutionClientStatus_waits[OF assms(1)] obtain c where
    "checkExecutionClientStatus (refresh_status p) = Inr (False, Some c)" by blast
  with assms(2) show ?thesis by (simp add: refreshStatus_def)
qed

lemma checkProgress_syncing:
  assumes "reports_progress (SyncProgress_of p primaryEc)"
    "reports_progress (SyncProgress_of p fallbackEc)" "clientToCheck st \<noteq> None"
  shows "checkProgress p st = Continue st"
proof -
  from assms(3) obtain c where c: "clientToCheck st = Some c" by blast
  have "reports_progress (SyncProgress_of p c)" using assms(1,2) by (cases c) simp_all
  then obtain pr where "SyncProgress_of p c = Inr (Some pr)"
    by (auto simp: reports_progress_def split: sum.splits)
  with c show ?thesis by (simp add: checkProgress_def)
qed

lemma waitEth_body_syncing:
  assumes "eth_still_syncing p" "clientToCheck st \<noteq> None"
    "\<not> (0 < timeout \<and> float64 (of_int timeout) < Seconds (time_Since (clk_timeout p) s))"
  shows "\<exists>st'. waitEth_body timeout s p st = Continue st' \<and> clientToCheck st' \<noteq> None"
proof -
  from assms(1) have a: "waits_on_a_client (refresh_status p)"
    and b: "reports_progress (SyncProgress_of p primaryEc)"
    and c: "reports_progress (SyncProgress_of p fallbackEc)"
    by (simp_all add: eth_still_syncing_def)
  from refreshStatus_syncing[OF a assms(2)] obtain st' where
    r: "refreshStatus p st = Continue st'" and n: "clientToCheck st' \<noteq> None" by blast
  have "checkProgress p st' = Continue st'" using b c n by (rule checkProgress_syncing)
  with r n assms(3) show ?thesis by (auto simp: waitEth_body_def)
qed

lemma waitEth_body_timeout:
  "0 < timeout \<Longrightarrow> float64 (of_int timeout) < Seconds (time_Since (clk_timeout p) s) \<Longrightarrow>
   waitEth_body timeout s p st = Return (Inr False)"
  by (simp add: waitEth_body_def)

lemma refreshStatus_not_false: "refreshStatus p st \<noteq> Return (Inr False)"
  by (auto simp: refreshStatus_def split: sum.splits prod.splits)

lemma checkProgress_not_false: "checkProgress p st \<noteq> Return (Inr False)"
  by (auto simp: checkProgress_def split: sum.splits prod.splits option.splits)

lemma waitEth_body_no_timeout_not_false: "waitEth_body 0 s p st \<noteq> Return (Inr False)"
  using refreshStatus_not_false[of p st] checkProgress_not_false[of p]
  by (auto simp: waitEth_body_def split: step.splits)

lemma waitEth_state_syncing:
  assumes "\<forall>i<n. eth_still_syncing (polls i)
             \<and> \<not> (0 < timeout \<and> float64 (of_int timeout) < Seconds (time_Since (clk_timeout (polls i)) s))"
    and "clientToCheck st0 \<noteq> None"
  shows "\<exists>st. waitEth_state timeout s polls st0 n = Some st \<and> clientToCheck st \<noteq> None"
  using assms(1)
proof (induction n)
  case 0
  with assms(2) show ?case by simp
next
  case (Suc n)
  then obtain st where a: "waitEth_state timeout s polls st0 n = Some st"
    and b: "clientToCheck st \<noteq> None" by auto
  from Suc.prems have "eth_still_syncing (polls n)"
    and "\<not> (0 < timeout \<and> float64 (of_int timeout) < Seconds (time_Since (clk_timeout (polls n)) s))"
    by simp_all
  from waitEth_body_syncing[OF this(1) b this(2)] obtain st' where
    "waitEth_body timeout s (polls n) st = Continue st'" "clientToCheck st' \<noteq> None" by blast
  with a show ?case by simp
qed

subsection \<open>The whole wait\<close>

lemma waitEthClientSynced_reaches:
  assumes "waitEth_reaches w timeout n = Some st"
  shows "waitEthClientSynced w verbose timeout
     = waitEth_loop timeout (time_Now (clk_start w)) (eth_polls w) n st"
proof -
  from assms obtain ecMgr c where g: "GetEthClient w = Inr ecMgr"
    and i: "checkExecutionClientStatus (initial_status w) = Inr (False, c)"
    and r: "waitEth_state timeout (time_Now (clk_start w)) (eth_polls w)
              \<lparr>ecRefreshTime = time_Now (clk_start w), clientToCheck = c\<rparr> n = Some st"
    by (auto simp: waitEth_reaches_def split: sum.splits prod.splits if_splits)
  from waitEth_loop_from_state[OF r] g i show ?thesis
    by (simp add: waitEthClientSynced_def Let_def)
qed

lemma waitEthClientSynced_returns_at:
  assumes "waitEth_reaches w timeout n = Some st"
    and "waitEth_body timeout (time_Now (clk_start w)) (eth_polls w n) st = Return r"
  shows "waitEthClientSynced w verbose timeout = Some r"
  unfolding waitEthClientSynced_reaches[OF assms(1)] using assms(2) by (rule waitEth_loop_return)

lemma waitEth_reaches_syncing:
  assumes "eth_starts_syncing w"
    and "\<forall>i<n. eth_still_syncing (eth_polls w i)
            \<and> \<not> (0 < timeout \<and> eth_elapsed_exceeds timeout w i)"
  shows "\<exists>st. waitEth_reaches w timeout n = Some st \<and> clientToCheck st \<noteq> None"
proof -
  from assms(1) obtain ecMgr where g: "GetEthClient w = Inr ecMgr"
    and "waits_on_a_client (initial_status w)"
    by (auto simp: eth_starts_syncing_def split: sum.splits)
  from checkExecutionClientStatus_waits[OF this(2)] obtain c where
    i: "checkExecutionClientStatus (initial_status w) = Inr (False, Some c)" by blast
  have "\<exists>st. waitEth_state timeout (time_Now (clk_start w)) (eth_polls w)
      \<lparr>ecRefreshTime = time_Now (clk_start w), clientToCheck = Some c\<rparr> n = Some st
      \<and> clientToCheck st \<noteq> None"
    using assms(2) by (intro waitEth_state_syncing) (simp_all add: eth_elapsed_exceeds_def)
  with g i show ?thesis by (simp add: waitEth_reaches_def)
qed

lemma eth_starts_syncing_loop:
  assumes "eth_starts_syncing w"
  shows "\<exists>c. waitEthClientSynced w verbose timeout
            = waitEth_loop timeout (time_Now (clk_start w)) (eth_polls w) 0
                \<lparr>ecRefreshTime = time_Now (clk_start w), clientToCheck = Some c\<rparr>
          \<and> (\<forall>n. waitEth_reaches w timeout n
                 = waitEth_state timeout (time_Now (clk_start w)) (eth_polls w)
                     \<lparr>ecRefreshTime = time_Now (clk_start w), clientToCheck = Some c\<rparr> n)"
proof -
  from assms obtain ecMgr where g: "GetEthClient w = Inr ecMgr"
    and "waits_on_a_client (initial_status w)"
    by (auto simp: eth_starts_syncing_def split: sum.splits)
  from checkExecutionClientStatus_waits[OF this(2)] obtain c where
    i: "checkExecutionClientStatus (initial_status w) = Inr (False, Some c)" by blast
  from g i show ?thesis
    by (intro exI[of _ c]) (simp add: waitEthClientSynced_def waitEth_reaches_def Let_def)
qed

lemma waitEthClientSynced_no_timeout_not_false:
  "waitEthClientSynced w verbose 0 \<noteq> Some (Inr False)"
proof
  assume a: "waitEthClientSynced w verbose 0 = Some (Inr False)"
  then obtain ecMgr c where
    "waitEth_loop 0 (time_Now (clk_start w)) (eth_polls w) 0
       \<lparr>ecRefreshTime = time_Now (clk_start w), clientToCheck = c\<rparr> = Some (Inr False)"
    by (auto simp: waitEthClientSynced_def Let_def split: sum.splits prod.splits if_splits)
  then obtain n st where
    "waitEth_body 0 (time_Now (clk_start w)) (eth_polls w n) st = Return (Inr False)"
    unfolding waitEth_loop_iff by blast
  with waitEth_body_no_timeout_not_false show False by blast
qed

lemma waitBeaconClientSynced_no_timeout_not_false:
  "waitBeaconClientSynced w verbose 0 \<noteq> Some (Inr False)"
proof
  assume a: "waitBeaconClientSynced w verbose 0 = Some (Inr False)"
  then have "waitBeacon_loop 0 (Unix (time_Now (clk_start_b w))) (beacon_polls w) 0 = Some (Inr False)"
    by (auto simp: waitBeaconClientSynced_def split: sum.splits)
  then obtain n where
    "waitBeacon_body 0 (Unix (time_Now (clk_start_b w))) (beacon_polls w n) = Return (Inr False)"
    unfolding waitBeacon_loop_iff by blast
  then show False
    by (auto simp: waitBeacon_body_no_timeout split: sum.splits if_splits)
qed

lemma waitEthClientSynced_forever:
  assumes "eth_starts_syncing w" "\<forall>i. eth_still_syncing (eth_polls w i)"
  shows "waitEthClientSynced w verbose 0 = None"
proof -
  from eth_starts_syncing_loop[OF assms(1), of verbose 0] obtain c where
    l: "waitEthClientSynced w verbose 0
          = waitEth_loop 0 (time_Now (clk_start w)) (eth_polls w) 0
              \<lparr>ecRefreshTime = time_Now (clk_start w), clientToCheck = Some c\<rparr>"
    and r: "\<forall>n. waitEth_reaches w 0 n
          = waitEth_state 0 (time_Now (clk_start w)) (eth_polls w)
              \<lparr>ecRefreshTime = time_Now (clk_start w), clientToCheck = Some c\<rparr> n"
    by blast
  have "\<forall>n. waitEth_state 0 (time_Now (clk_start w)) (eth_polls w)
              \<lparr>ecRefreshTime = time_Now (clk_start w), clientToCheck = Some c\<rparr> n \<noteq> None"
  proof
    fix n
    have "\<exists>st. waitEth_reaches w 0 n = Some st \<and> clientToCheck st \<noteq> None"
      using assms by (intro waitEth_reaches_syncing) simp_all
    with r show "waitEth_state 0 (time_Now (clk_start w)) (eth_polls w)
              \<lparr>ecRefreshTime = time_Now (clk_start w), clientToCheck = Some c\<rparr> n \<noteq> None"
      by auto
  qed
  then show ?thesis unfolding l by (rule waitEth_loop_forever)
qed

lemma waitBeaconClientSynced_forever:
  assumes "GetBeaconClient w = Inr ()" "\<forall>i. beacon_still_syncing (beacon_polls w i)"
  shows "waitBeaconClientSynced w verbose 0 = None"
proof -
  have "\<forall>j. waitBeacon_body 0 (Unix (time_Now (clk_start_b w))) (beacon_polls w j) = Continue ()"
    using assms(2) by (simp add: waitBeacon_body_syncing)
  then have "waitBeacon_loop 0 (Unix (time_Now (clk_start_b w))) (beacon_polls w) 0 = None"
    by (rule waitBeacon_loop_forever)
  with assms(1) show ?thesis by (simp add: waitBeaconClientSynced_def)
qed

lemma waitBeacon_reaches_syncing:
  assumes "GetBeaconClient w = Inr ()"
    and "\<forall>i<n. beacon_still_syncing (beacon_polls w i) \<and> \<not> (0 < timeout \<and> beacon_elapsed_exceeds timeout w i)"
  shows "waitBeacon_reaches w timeout n"
  using assms by (simp add: waitBeacon_reaches_def waitBeacon_body_syncing beacon_elapsed_exceeds_def)

section \<open>Primary before fallback\<close>

text \<open>
  C6. When the primary execution client is ready (\<^verbatim>\<open>ecMgr.primaryReady\<close>),
  checkExecutionClientStatus returns ready with no client to wait on and no error, and
  the result does not depend on the fallback: any other fallback flag, configuration and
  fallback status give the same result.
\<close>

theorem C6_primary_first:
  "primaryReady ecMgr \<longrightarrow>
     checkExecutionClientStatus ecMgr = Inr (True, None)
     \<and> checkExecutionClientStatus
         (ecMgr\<lparr>fallbackReady := fr,
                mgrStatus := (mgrStatus ecMgr)\<lparr>FallbackEnabled := fe, FallbackEcStatus := fs\<rparr>\<rparr>)
         = Inr (True, None)"
  by (simp add: checkExecutionClientStatus_def)

section \<open>Errors of the probes\<close>

lemma waitEth_reaches_Suc:
  assumes "waitEth_reaches w timeout n = Some st"
  shows "waitEth_reaches w timeout (Suc n)
     = (case waitEth_body timeout (time_Now (clk_start w)) (eth_polls w n) st of
          Return r \<Rightarrow> None
        | Continue st' \<Rightarrow> Some st')"
  using assms
  by (auto simp: waitEth_reaches_def split: sum.splits prod.splits if_splits)

lemma waitBeacon_reaches_Suc:
  "waitBeacon_reaches w timeout (Suc n) \<longleftrightarrow>
     waitBeacon_reaches w timeout n
     \<and> waitBeacon_body timeout (Unix (time_Now (clk_start_b w))) (beacon_polls w n) = Continue ()"
  by (auto simp: waitBeacon_reaches_def less_Suc_eq split: sum.splits)

lemma waitEth_body_probe:
  assumes "\<not> (0 < timeout \<and> float64 (of_int timeout) < Seconds (time_Since (clk_timeout p) s))"
    and "refreshStatus p st = Continue st'"
  shows "waitEth_body timeout s p st = checkProgress p st'"
  using assms by (auto simp: waitEth_body_def)

lemma checkProgress_progress_error:
  "clientToCheck st = Some c \<Longrightarrow> SyncProgress_of p c = Inl e \<Longrightarrow>
   checkProgress p st = Return (Inl e)"
  by (simp add: checkProgress_def)

lemma checkProgress_timestamp_error:
  "clientToCheck st = Some c \<Longrightarrow> SyncProgress_of p c = Inr None \<Longrightarrow>
   LatestBlockTimestamp_of p c = Inl e \<Longrightarrow> checkProgress p st = Return (Inl e)"
  by (simp add: checkProgress_def IsSyncWithinThreshold_def)

lemma waitEth_returns_now:
  assumes "waitEth_reaches w timeout n = Some st"
    and "\<not> (0 < timeout \<and> eth_elapsed_exceeds timeout w n)"
    and "refreshStatus (eth_polls w n) st = Continue st'"
    and "checkProgress (eth_polls w n) st' = Return r"
  shows "waitEthClientSynced w verbose timeout = Some r \<and> waitEth_reaches w timeout (Suc n) = None"
proof -
  have "waitEth_body timeout (time_Now (clk_start w)) (eth_polls w n) st
      = checkProgress (eth_polls w n) st'"
    using assms(2,3) by (intro waitEth_body_probe) (simp_all add: eth_elapsed_exceeds_def)
  with assms(4) have b: "waitEth_body timeout (time_Now (clk_start w)) (eth_polls w n) st = Return r"
    by simp
  from waitEthClientSynced_returns_at[OF assms(1) b] waitEth_reaches_Suc[OF assms(1)] b
  show ?thesis by simp
qed

lemma waitEth_goes_on:
  assumes "waitEth_reaches w timeout n = Some st"
    and "\<not> (0 < timeout \<and> eth_elapsed_exceeds timeout w n)"
    and "refreshStatus (eth_polls w n) st = Continue st'"
    and "checkProgress (eth_polls w n) st' = Continue st''"
  shows "waitEth_reaches w timeout (Suc n) = Some st''"
proof -
  have "waitEth_body timeout (time_Now (clk_start w)) (eth_polls w n) st
      = checkProgress (eth_polls w n) st'"
    using assms(2,3) by (intro waitEth_body_probe) (simp_all add: eth_elapsed_exceeds_def)
  with assms(4) waitEth_reaches_Suc[OF assms(1)] show ?thesis by simp
qed

lemma waitBeacon_returns_now:
  assumes "waitBeacon_reaches w timeout n"
    and "waitBeacon_body timeout (Unix (time_Now (clk_start_b w))) (beacon_polls w n) = Return r"
  shows "waitBeaconClientSynced w verbose timeout = Some r \<and> \<not> waitBeacon_reaches w timeout (Suc n)"
proof -
  have "waitBeaconClientSynced w verbose timeout
      = waitBeacon_loop timeout (Unix (time_Now (clk_start_b w))) (beacon_polls w) n"
    using assms(1) by (rule waitBeaconClientSynced_reaches)
  also have "\<dots> = Some r" using assms(2) by (rule waitBeacon_loop_return)
  finally show ?thesis using assms(2) by (simp add: waitBeacon_reaches_Suc)
qed

text \<open>
  C7. When pass \<open>n\<close> of a wait is reached and its timeout test does not fire, an error
  answered by the probe of that pass is what the wait returns, and there is no pass
  \<open>n + 1\<close>: for SyncProgress and for the latest block timestamp (asked when SyncProgress
  answers no progress object) of the client the execution wait is checking, and for
  GetSyncStatus in the beacon wait.
\<close>

theorem C7_probe_errors_propagate:
  "(waitEth_reaches w timeout n = Some st
      \<and> \<not> (0 < timeout \<and> eth_elapsed_exceeds timeout w n)
      \<and> refreshStatus (eth_polls w n) st = Continue st'
      \<and> clientToCheck st' = Some c
      \<and> SyncProgress_of (eth_polls w n) c = Inl e \<longrightarrow>
      waitEthClientSynced w verbose timeout = Some (Inl e)
      \<and> waitEth_reaches w timeout (Suc n) = None)
   \<and> (waitEth_reaches w timeout n = Some st
      \<and> \<not> (0 < timeout \<and> eth_elapsed_exceeds timeout w n)
      \<and> refreshStatus (eth_polls w n) st = Continue st'
      \<and> clientToCheck st' = Some c
      \<and> SyncProgress_of (eth_polls w n) c = Inr None
      \<and> LatestBlockTimestamp_of (eth_polls w n) c = Inl e \<longrightarrow>
      waitEthClientSynced w verbose timeout = Some (Inl e)
      \<and> waitEth_reaches w timeout (Suc n) = None)
   \<and> (waitBeacon_reaches wb timeout n
      \<and> \<not> (0 < timeout \<and> beacon_elapsed_exceeds timeout wb n)
      \<and> GetSyncStatus (beacon_polls wb n) = Inl e \<longrightarrow>
      waitBeaconClientSynced wb verbose timeout = Some (Inl e)
      \<and> \<not> waitBeacon_reaches wb timeout (Suc n))"
proof (intro conjI impI)
  assume h: "waitEth_reaches w timeout n = Some st
      \<and> \<not> (0 < timeout \<and> eth_elapsed_exceeds timeout w n)
      \<and> refreshStatus (eth_polls w n) st = Continue st'
      \<and> clientToCheck st' = Some c
      \<and> SyncProgress_of (eth_polls w n) c = Inl e"
  then have "checkProgress (eth_polls w n) st' = Return (Inl e)"
    by (simp add: checkProgress_progress_error)
  with h have r: "waitEthClientSynced w verbose timeout = Some (Inl e)
      \<and> waitEth_reaches w timeout (Suc n) = None"
    by (intro waitEth_returns_now) blast+
  from r show "waitEthClientSynced w verbose timeout = Some (Inl e)" by blast
  from r show "waitEth_reaches w timeout (Suc n) = None" by blast
next
  assume h: "waitEth_reaches w timeout n = Some st
      \<and> \<not> (0 < timeout \<and> eth_elapsed_exceeds timeout w n)
      \<and> refreshStatus (eth_polls w n) st = Continue st'
      \<and> clientToCheck st' = Some c
      \<and> SyncProgress_of (eth_polls w n) c = Inr None
      \<and> LatestBlockTimestamp_of (eth_polls w n) c = Inl e"
  then have "checkProgress (eth_polls w n) st' = Return (Inl e)"
    by (simp add: checkProgress_timestamp_error)
  with h have r: "waitEthClientSynced w verbose timeout = Some (Inl e)
      \<and> waitEth_reaches w timeout (Suc n) = None"
    by (intro waitEth_returns_now) blast+
  from r show "waitEthClientSynced w verbose timeout = Some (Inl e)" by blast
  from r show "waitEth_reaches w timeout (Suc n) = None" by blast
next
  assume h: "waitBeacon_reaches wb timeout n
      \<and> \<not> (0 < timeout \<and> beacon_elapsed_exceeds timeout wb n)
      \<and> GetSyncStatus (beacon_polls wb n) = Inl e"
  then have "waitBeacon_body timeout (Unix (time_Now (clk_start_b wb))) (beacon_polls wb n)
      = Return (Inl e)"
    by (intro waitBeacon_body_error) (simp_all add: beacon_elapsed_exceeds_def)
  with h have r: "waitBeaconClientSynced wb verbose timeout = Some (Inl e)
      \<and> \<not> waitBeacon_reaches wb timeout (Suc n)"
    by (intro waitBeacon_returns_now) blast+
  from r show "waitBeaconClientSynced wb verbose timeout = Some (Inl e)" by blast
  from r show "\<not> waitBeacon_reaches wb timeout (Suc n)" by blast
qed

section \<open>Timeouts of the two waits\<close>

subsection \<open>The timeout tests and the elapsed time\<close>

lemma time_Since_start:
  "time_Since (clk_timeout (eth_polls w n)) (time_Now (clk_start w)) = saturate (eth_elapsed_ns w n)"
  by (simp add: time_Since_def Sub_def time_Now_def eth_elapsed_ns_def)

lemma saturate_le_maxDuration: "saturate d \<le> maxDuration"
  by (simp add: saturate_def maxDuration_def minDuration_def)

lemma saturate_le:
  assumes "d \<le> c" "0 \<le> c"
  shows "saturate d \<le> c"
  using assms by (simp add: saturate_def maxDuration_def minDuration_def)

lemma saturate_ge:
  assumes "c \<le> d" "c \<le> maxDuration"
  shows "c \<le> saturate d"
  using assms by (simp add: saturate_def maxDuration_def minDuration_def)

lemma saturate_gt:
  assumes "c < d" "c < maxDuration"
  shows "c < saturate d"
  using assms by (simp add: saturate_def maxDuration_def minDuration_def)

lemma float64_timeout_small:
  assumes "0 < timeout" "timeout < 2 ^ 53"
  shows "float64 (of_int timeout) = of_int timeout"
  using assms by (intro float64_of_int) simp

lemma eth_exceeds_elapsed:
  assumes t0: "0 < timeout" and ex: "eth_elapsed_exceeds timeout w n"
  shows "timeout * 1000000000 < eth_elapsed_ns w n"
proof (rule ccontr)
  assume "\<not> timeout * 1000000000 < eth_elapsed_ns w n"
  then have le: "eth_elapsed_ns w n \<le> timeout * Second" by (simp add: Second_def)
  define k where "k = min timeout 9223372037"
  have k0: "0 \<le> k" and k1: "k < 2 ^ 53" and kt: "k \<le> timeout"
    using t0 by (simp_all add: k_def)
  have "saturate (eth_elapsed_ns w n) \<le> k * Second"
  proof (cases "timeout \<le> 9223372037")
    case True
    then have "k = timeout" by (simp add: k_def)
    moreover have "0 \<le> timeout * Second" using t0 by (simp add: Second_def)
    ultimately show ?thesis using le by (simp add: saturate_le)
  next
    case False
    then have "k = 9223372037" by (simp add: k_def)
    moreover have "maxDuration \<le> 9223372037 * Second" by (simp add: maxDuration_def Second_def)
    ultimately show ?thesis using saturate_le_maxDuration[of "eth_elapsed_ns w n"] by simp
  qed
  then have "Seconds (saturate (eth_elapsed_ns w n)) \<le> of_int k"
    using k0 k1 by (rule Seconds_le)
  also have "(of_int k :: rat) \<le> float64 (of_int timeout)"
  proof -
    have "(of_int k :: rat) \<le> of_int timeout" using kt by (simp only: of_int_le_iff)
    then show ?thesis using k0 k1 by (intro float64_ge_int) simp_all
  qed
  finally show False using ex by (simp add: eth_elapsed_exceeds_def time_Since_start)
qed

lemma eth_elapsed_exceeds_exact:
  assumes t0: "0 < timeout" and t1: "timeout < 2 ^ 24"
  shows "eth_elapsed_exceeds timeout w n \<longleftrightarrow> timeout * 1000000000 < eth_elapsed_ns w n"
proof
  assume "eth_elapsed_exceeds timeout w n"
  with t0 show "timeout * 1000000000 < eth_elapsed_ns w n" by (rule eth_exceeds_elapsed)
next
  assume "timeout * 1000000000 < eth_elapsed_ns w n"
  then have "timeout * Second < eth_elapsed_ns w n" by (simp add: Second_def)
  moreover have "timeout * Second < maxDuration"
    using t1 by (simp add: Second_def maxDuration_def)
  ultimately have "timeout * Second < saturate (eth_elapsed_ns w n)" by (rule saturate_gt)
  then have "of_int timeout < Seconds (saturate (eth_elapsed_ns w n))"
    using t0 t1 by (intro Seconds_gt_24) simp_all
  moreover have "float64 (of_int timeout) = of_int timeout"
    using t0 t1 by (intro float64_timeout_small) simp_all
  ultimately show "eth_elapsed_exceeds timeout w n"
    by (simp add: eth_elapsed_exceeds_def time_Since_start)
qed

lemma eth_elapsed_second_later:
  assumes t0: "0 < timeout" and t1: "timeout < 9223372036"
    and el: "(timeout + 1) * 1000000000 \<le> eth_elapsed_ns w n"
  shows "eth_elapsed_exceeds timeout w n"
proof -
  have "(timeout + 1) * Second \<le> eth_elapsed_ns w n" using el by (simp add: Second_def)
  moreover have "(timeout + 1) * Second \<le> maxDuration"
    using t1 by (simp add: Second_def maxDuration_def)
  ultimately have "(timeout + 1) * Second \<le> saturate (eth_elapsed_ns w n)" by (rule saturate_ge)
  then have "of_int (timeout + 1) \<le> Seconds (saturate (eth_elapsed_ns w n))"
    using t0 t1 by (intro Seconds_ge) simp_all
  moreover have "float64 (of_int timeout) = of_int timeout"
    using t0 t1 by (intro float64_timeout_small) simp_all
  ultimately show ?thesis
    by (simp add: eth_elapsed_exceeds_def time_Since_start)
qed

lemma eth_never_exceeds:
  assumes "9223372037 \<le> timeout"
  shows "\<not> eth_elapsed_exceeds timeout w n"
proof -
  have "0 < timeout" using assms by simp
  moreover have "\<not> timeout * 1000000000 < eth_elapsed_ns w n"
    if "eth_elapsed_exceeds timeout w n"
  proof -
    have "saturate (eth_elapsed_ns w n) \<le> 9223372037 * Second"
      using saturate_le_maxDuration[of "eth_elapsed_ns w n"]
      by (simp add: maxDuration_def Second_def)
    then have "Seconds (saturate (eth_elapsed_ns w n)) \<le> of_int 9223372037"
      by (intro Seconds_le) simp_all
    also have "(of_int 9223372037 :: rat) \<le> float64 (of_int timeout)"
    proof -
      have "(of_int 9223372037 :: rat) \<le> of_int timeout" using assms by (simp only: of_int_le_iff)
      then show ?thesis by (intro float64_ge_int) simp_all
    qed
    finally have False using that by (simp add: eth_elapsed_exceeds_def time_Since_start)
    then show ?thesis ..
  qed
  ultimately show ?thesis using eth_exceeds_elapsed[of timeout w n] by blast
qed

lemma Unix_time_Now:
  assumes "wall_clock_ok c"
  shows "Unix (time_Now c) = unix_sec c"
proof -
  have "int64 (unix_sec c) = unix_sec c"
    using assms by (intro int64_id) (simp_all add: wall_clock_ok_def)
  then show ?thesis by (simp add: Unix_def time_Now_def)
qed

lemma beacon_elapsed_exceeds_seconds:
  assumes a: "wall_clock_ok (clk_start_b w)" and b: "wall_clock_ok (clk_now (beacon_polls w n))"
  shows "beacon_elapsed_exceeds timeout w n
     \<longleftrightarrow> timeout < unix_sec (clk_now (beacon_polls w n)) - unix_sec (clk_start_b w)"
proof -
  have "- (2 ^ 63) \<le> unix_sec (clk_now (beacon_polls w n)) - unix_sec (clk_start_b w)"
    using a b by (simp add: wall_clock_ok_def)
  moreover have "unix_sec (clk_now (beacon_polls w n)) - unix_sec (clk_start_b w) < 2 ^ 63"
    using a b by (simp add: wall_clock_ok_def)
  ultimately have "int64 (unix_sec (clk_now (beacon_polls w n)) - unix_sec (clk_start_b w))
      = unix_sec (clk_now (beacon_polls w n)) - unix_sec (clk_start_b w)"
    by (rule int64_id)
  then show ?thesis
    by (simp add: beacon_elapsed_exceeds_def Unix_time_Now[OF a] Unix_time_Now[OF b])
qed

lemma beacon_exceeds_elapsed:
  assumes a: "wall_clock_ok (clk_start_b w)" and b: "wall_clock_ok (clk_now (beacon_polls w n))"
    and ex: "beacon_elapsed_exceeds timeout w n"
  shows "timeout * 1000000000 < beacon_elapsed_ns w n"
proof -
  from ex have "timeout + 1 \<le> unix_sec (clk_now (beacon_polls w n)) - unix_sec (clk_start_b w)"
    unfolding beacon_elapsed_exceeds_seconds[OF a b] by simp
  then have "(timeout + 1) * 1000000000
      \<le> (unix_sec (clk_now (beacon_polls w n)) - unix_sec (clk_start_b w)) * 1000000000"
    by simp
  moreover have "nanos (clk_start_b w) < 1000000000" using a by (simp add: wall_clock_ok_def)
  moreover have "0 \<le> nanos (clk_now (beacon_polls w n))" using b by (simp add: wall_clock_ok_def)
  ultimately show ?thesis by (simp add: beacon_elapsed_ns_def wall_ns_def algebra_simps)
qed

lemma beacon_elapsed_second_later:
  assumes a: "wall_clock_ok (clk_start_b w)" and b: "wall_clock_ok (clk_now (beacon_polls w n))"
    and el: "(timeout + 1) * 1000000000 \<le> beacon_elapsed_ns w n"
  shows "beacon_elapsed_exceeds timeout w n"
proof -
  have "0 \<le> nanos (clk_start_b w)" using a by (simp add: wall_clock_ok_def)
  moreover have "nanos (clk_now (beacon_polls w n)) < 1000000000"
    using b by (simp add: wall_clock_ok_def)
  ultimately have "timeout * 1000000000
      < (unix_sec (clk_now (beacon_polls w n)) - unix_sec (clk_start_b w)) * 1000000000"
    using el by (simp add: beacon_elapsed_ns_def wall_ns_def algebra_simps)
  then have "timeout < unix_sec (clk_now (beacon_polls w n)) - unix_sec (clk_start_b w)"
    by simp
  then show ?thesis unfolding beacon_elapsed_exceeds_seconds[OF a b] .
qed

subsection \<open>When a wait answers not ready\<close>

lemma waitEth_body_false_iff:
  "waitEth_body timeout s p st = Return (Inr False)
     \<longleftrightarrow> 0 < timeout \<and> float64 (of_int timeout) < Seconds (time_Since (clk_timeout p) s)"
proof (cases "0 < timeout \<and> float64 (of_int timeout) < Seconds (time_Since (clk_timeout p) s)")
  case True
  then show ?thesis by (simp add: waitEth_body_def)
next
  case False
  then have b: "waitEth_body timeout s p st
      = (case refreshStatus p st of Return r \<Rightarrow> Return r | Continue st' \<Rightarrow> checkProgress p st')"
    by (auto simp: waitEth_body_def)
  have "waitEth_body timeout s p st \<noteq> Return (Inr False)"
    unfolding b using refreshStatus_not_false[of p st] checkProgress_not_false[of p]
    by (auto split: step.splits)
  with False show ?thesis by blast
qed

lemma waitBeacon_body_false_iff:
  "waitBeacon_body timeout s p = Return (Inr False)
     \<longleftrightarrow> 0 < timeout \<and> timeout < int64 (Unix (time_Now (clk_now p)) - s)"
  by (auto simp: waitBeacon_body_def split: sum.splits)

lemma waitEthClientSynced_false_iff:
  "waitEthClientSynced w verbose timeout = Some (Inr False)
     \<longleftrightarrow> 0 < timeout
         \<and> (\<exists>n st. waitEth_reaches w timeout n = Some st \<and> eth_elapsed_exceeds timeout w n)"
proof (cases "GetEthClient w")
  case (Inl e)
  then show ?thesis by (simp add: waitEthClientSynced_def waitEth_reaches_def)
next
  case (Inr ecMgr)
  show ?thesis
  proof (cases "checkExecutionClientStatus (initial_status w)")
    case (Inl e)
    with Inr show ?thesis by (simp add: waitEthClientSynced_def waitEth_reaches_def)
  next
    case i: (Inr sc)
    obtain synced c where sc: "sc = (synced, c)" by (cases sc)
    show ?thesis
    proof (cases synced)
      case True
      with Inr i sc show ?thesis by (simp add: waitEthClientSynced_def waitEth_reaches_def)
    next
      case False
      define st0 where "st0 = \<lparr>ecRefreshTime = time_Now (clk_start w), clientToCheck = c\<rparr>"
      have l: "waitEthClientSynced w verbose timeout
          = waitEth_loop timeout (time_Now (clk_start w)) (eth_polls w) 0 st0"
        using Inr i sc False by (simp add: waitEthClientSynced_def Let_def st0_def)
      have r: "waitEth_reaches w timeout n
          = waitEth_state timeout (time_Now (clk_start w)) (eth_polls w) st0 n" for n
        using Inr i sc False by (simp add: waitEth_reaches_def st0_def)
      show ?thesis
        unfolding l r waitEth_loop_iff waitEth_body_false_iff eth_elapsed_exceeds_def
        by blast
    qed
  qed
qed

lemma waitBeaconClientSynced_false_iff:
  "waitBeaconClientSynced w verbose timeout = Some (Inr False)
     \<longleftrightarrow> 0 < timeout
         \<and> (\<exists>n. waitBeacon_reaches w timeout n \<and> beacon_elapsed_exceeds timeout w n)"
proof (cases "GetBeaconClient w")
  case (Inl e)
  then show ?thesis by (simp add: waitBeaconClientSynced_def waitBeacon_reaches_def)
next
  case (Inr bc)
  have l: "waitBeaconClientSynced w verbose timeout
      = waitBeacon_loop timeout (Unix (time_Now (clk_start_b w))) (beacon_polls w) 0"
    using Inr by (simp add: waitBeaconClientSynced_def)
  have r: "waitBeacon_reaches w timeout n
      \<longleftrightarrow> (\<forall>j<n. waitBeacon_body timeout (Unix (time_Now (clk_start_b w))) (beacon_polls w j)
                    = Continue ())" for n
    using Inr by (simp add: waitBeacon_reaches_def)
  show ?thesis
    unfolding l r waitBeacon_loop_iff waitBeacon_body_false_iff beacon_elapsed_exceeds_def
    by blast
qed

lemma waitEthClientSynced_times_out_at:
  assumes "0 < timeout" "eth_starts_syncing w"
    and "\<forall>i<n. eth_still_syncing (eth_polls w i) \<and> \<not> eth_elapsed_exceeds timeout w i"
    and "eth_elapsed_exceeds timeout w n"
  shows "waitEthClientSynced w verbose timeout = Some (Inr False)
       \<and> waitEth_reaches w timeout n \<noteq> None
       \<and> waitEth_reaches w timeout (Suc n) = None"
proof -
  have "\<exists>st. waitEth_reaches w timeout n = Some st \<and> clientToCheck st \<noteq> None"
    using assms(2,3) by (intro waitEth_reaches_syncing) simp_all
  then obtain st where st: "waitEth_reaches w timeout n = Some st" by blast
  have b: "waitEth_body timeout (time_Now (clk_start w)) (eth_polls w n) st = Return (Inr False)"
    using assms(1,4) by (simp add: waitEth_body_timeout eth_elapsed_exceeds_def)
  from waitEthClientSynced_returns_at[OF st b] waitEth_reaches_Suc[OF st] b st
  show ?thesis by simp
qed

lemma waitBeaconClientSynced_times_out_at:
  assumes "0 < timeout" "GetBeaconClient w = Inr ()"
    and "\<forall>i<n. beacon_still_syncing (beacon_polls w i) \<and> \<not> beacon_elapsed_exceeds timeout w i"
    and "beacon_elapsed_exceeds timeout w n"
  shows "waitBeaconClientSynced w verbose timeout = Some (Inr False)
       \<and> waitBeacon_reaches w timeout n
       \<and> \<not> waitBeacon_reaches w timeout (Suc n)"
proof -
  have r: "waitBeacon_reaches w timeout n"
    using assms(2,3) by (intro waitBeacon_reaches_syncing) simp_all
  have b: "waitBeacon_body timeout (Unix (time_Now (clk_start_b w))) (beacon_polls w n)
      = Return (Inr False)"
    using assms(1,4) by (intro waitBeacon_body_timeout) (simp_all add: beacon_elapsed_exceeds_def)
  from waitBeacon_returns_now[OF r b] r show ?thesis by simp
qed

text \<open>
  C5, amended. With \<open>timeout = 0\<close> neither wait ever returns \<^verbatim>\<open>(false, nil)\<close>, and while
  the client stays syncing in every pass the wait never returns. For every \<open>timeout\<close> a wait
  returns \<^verbatim>\<open>(false, nil)\<close> exactly when \<open>timeout > 0\<close> and it reaches a pass whose timeout
  test fires. When the client is still syncing in the passes before pass \<open>n\<close> and the test
  fires first at pass \<open>n\<close>, pass \<open>n\<close> is reached, the wait returns \<^verbatim>\<open>(false, nil)\<close> there
  and there is no pass \<open>n + 1\<close>.

  The test of the execution wait compares \<^verbatim>\<open>float64\<close> seconds of the monotonic clock. It
  fires only if more than \<open>timeout\<close> seconds have elapsed; for \<open>timeout\<close> below \<open>2 ^ 24\<close> it
  fires exactly then; for \<open>timeout\<close> below 9223372036 it fires whenever \<open>timeout + 1\<close>
  seconds have elapsed; from 9223372037 on it never fires. The test of the beacon wait
  compares whole seconds of the wall clock: with clocks in range it fires exactly when the
  whole seconds differ by more than \<open>timeout\<close>, hence only if more than \<open>timeout\<close> seconds
  have elapsed on the wall clock and whenever \<open>timeout + 1\<close> seconds have.
\<close>

theorem C5_timeout_at_reached_pass:
  "waitEthClientSynced w verbose 0 \<noteq> Some (Inr False)
   \<and> waitBeaconClientSynced wb verbose 0 \<noteq> Some (Inr False)
   \<and> (eth_starts_syncing w \<and> (\<forall>i. eth_still_syncing (eth_polls w i)) \<longrightarrow>
        waitEthClientSynced w verbose 0 = None)
   \<and> (GetBeaconClient wb = Inr () \<and> (\<forall>i. beacon_still_syncing (beacon_polls wb i)) \<longrightarrow>
        waitBeaconClientSynced wb verbose 0 = None)
   \<and> (waitEthClientSynced w verbose timeout = Some (Inr False)
        \<longleftrightarrow> 0 < timeout
            \<and> (\<exists>m st. waitEth_reaches w timeout m = Some st \<and> eth_elapsed_exceeds timeout w m))
   \<and> (waitBeaconClientSynced wb verbose timeout = Some (Inr False)
        \<longleftrightarrow> 0 < timeout
            \<and> (\<exists>m. waitBeacon_reaches wb timeout m \<and> beacon_elapsed_exceeds timeout wb m))
   \<and> (0 < timeout \<and> eth_starts_syncing w
        \<and> (\<forall>i<n. eth_still_syncing (eth_polls w i) \<and> \<not> eth_elapsed_exceeds timeout w i)
        \<and> eth_elapsed_exceeds timeout w n \<longrightarrow>
        waitEthClientSynced w verbose timeout = Some (Inr False)
        \<and> waitEth_reaches w timeout n \<noteq> None
        \<and> waitEth_reaches w timeout (Suc n) = None)
   \<and> (0 < timeout \<and> GetBeaconClient wb = Inr ()
        \<and> (\<forall>i<n. beacon_still_syncing (beacon_polls wb i) \<and> \<not> beacon_elapsed_exceeds timeout wb i)
        \<and> beacon_elapsed_exceeds timeout wb n \<longrightarrow>
        waitBeaconClientSynced wb verbose timeout = Some (Inr False)
        \<and> waitBeacon_reaches wb timeout n
        \<and> \<not> waitBeacon_reaches wb timeout (Suc n))
   \<and> (0 < timeout \<and> eth_elapsed_exceeds timeout w n \<longrightarrow>
        timeout * 1000000000 < eth_elapsed_ns w n)
   \<and> (0 < timeout \<and> timeout < 2 ^ 24 \<longrightarrow>
        (eth_elapsed_exceeds timeout w n \<longleftrightarrow> timeout * 1000000000 < eth_elapsed_ns w n))
   \<and> (0 < timeout \<and> timeout < 9223372036
        \<and> (timeout + 1) * 1000000000 \<le> eth_elapsed_ns w n \<longrightarrow>
        eth_elapsed_exceeds timeout w n)
   \<and> \<not> eth_elapsed_exceeds (9223372037 + int k) w n
   \<and> (wall_clock_ok (clk_start_b wb) \<and> wall_clock_ok (clk_now (beacon_polls wb n)) \<longrightarrow>
        (beacon_elapsed_exceeds timeout wb n
           \<longleftrightarrow> timeout < unix_sec (clk_now (beacon_polls wb n)) - unix_sec (clk_start_b wb))
        \<and> (beacon_elapsed_exceeds timeout wb n \<longrightarrow>
             timeout * 1000000000 < beacon_elapsed_ns wb n)
        \<and> ((timeout + 1) * 1000000000 \<le> beacon_elapsed_ns wb n \<longrightarrow>
             beacon_elapsed_exceeds timeout wb n))"
proof (intro conjI impI)
  show "waitEthClientSynced w verbose 0 \<noteq> Some (Inr False)"
    by (rule waitEthClientSynced_no_timeout_not_false)
  show "waitBeaconClientSynced wb verbose 0 \<noteq> Some (Inr False)"
    by (rule waitBeaconClientSynced_no_timeout_not_false)
  show "waitEthClientSynced w verbose 0 = None"
    if "eth_starts_syncing w \<and> (\<forall>i. eth_still_syncing (eth_polls w i))"
    using that by (intro waitEthClientSynced_forever) simp_all
  show "waitBeaconClientSynced wb verbose 0 = None"
    if "GetBeaconClient wb = Inr () \<and> (\<forall>i. beacon_still_syncing (beacon_polls wb i))"
    using that by (intro waitBeaconClientSynced_forever) simp_all
  show "waitEthClientSynced w verbose timeout = Some (Inr False)
        \<longleftrightarrow> 0 < timeout
            \<and> (\<exists>m st. waitEth_reaches w timeout m = Some st \<and> eth_elapsed_exceeds timeout w m)"
    by (rule waitEthClientSynced_false_iff)
  show "waitBeaconClientSynced wb verbose timeout = Some (Inr False)
        \<longleftrightarrow> 0 < timeout
            \<and> (\<exists>m. waitBeacon_reaches wb timeout m \<and> beacon_elapsed_exceeds timeout wb m)"
    by (rule waitBeaconClientSynced_false_iff)
  {
    assume h: "0 < timeout \<and> eth_starts_syncing w
        \<and> (\<forall>i<n. eth_still_syncing (eth_polls w i) \<and> \<not> eth_elapsed_exceeds timeout w i)
        \<and> eth_elapsed_exceeds timeout w n"
    then have r: "waitEthClientSynced w verbose timeout = Some (Inr False)
        \<and> waitEth_reaches w timeout n \<noteq> None
        \<and> waitEth_reaches w timeout (Suc n) = None"
      by (intro waitEthClientSynced_times_out_at) simp_all
    from r show "waitEthClientSynced w verbose timeout = Some (Inr False)" by (rule conjunct1)
    from r show "waitEth_reaches w timeout n \<noteq> None" by simp
    from r show "waitEth_reaches w timeout (Suc n) = None" by simp
  }
  {
    assume h: "0 < timeout \<and> GetBeaconClient wb = Inr ()
        \<and> (\<forall>i<n. beacon_still_syncing (beacon_polls wb i) \<and> \<not> beacon_elapsed_exceeds timeout wb i)
        \<and> beacon_elapsed_exceeds timeout wb n"
    then have r: "waitBeaconClientSynced wb verbose timeout = Some (Inr False)
        \<and> waitBeacon_reaches wb timeout n
        \<and> \<not> waitBeacon_reaches wb timeout (Suc n)"
      by (intro waitBeaconClientSynced_times_out_at) simp_all
    from r show "waitBeaconClientSynced wb verbose timeout = Some (Inr False)" by (rule conjunct1)
    from r show "waitBeacon_reaches wb timeout n" by simp
    from r show "\<not> waitBeacon_reaches wb timeout (Suc n)" by simp
  }
  show "timeout * 1000000000 < eth_elapsed_ns w n"
    if "0 < timeout \<and> eth_elapsed_exceeds timeout w n"
    using that by (intro eth_exceeds_elapsed) simp_all
  show "eth_elapsed_exceeds timeout w n \<longleftrightarrow> timeout * 1000000000 < eth_elapsed_ns w n"
    if "0 < timeout \<and> timeout < 2 ^ 24"
    using that by (intro eth_elapsed_exceeds_exact) simp_all
  show "eth_elapsed_exceeds timeout w n"
    if "0 < timeout \<and> timeout < 9223372036
        \<and> (timeout + 1) * 1000000000 \<le> eth_elapsed_ns w n"
    using that by (intro eth_elapsed_second_later) simp_all
  show "\<not> eth_elapsed_exceeds (9223372037 + int k) w n"
    by (rule eth_never_exceeds) simp
  {
    assume h: "wall_clock_ok (clk_start_b wb) \<and> wall_clock_ok (clk_now (beacon_polls wb n))"
    then have a: "wall_clock_ok (clk_start_b wb)"
      and b: "wall_clock_ok (clk_now (beacon_polls wb n))" by simp_all
    show "beacon_elapsed_exceeds timeout wb n
           \<longleftrightarrow> timeout < unix_sec (clk_now (beacon_polls wb n)) - unix_sec (clk_start_b wb)"
      using a b by (rule beacon_elapsed_exceeds_seconds)
    show "timeout * 1000000000 < beacon_elapsed_ns wb n"
      if "beacon_elapsed_exceeds timeout wb n"
      using a b that by (rule beacon_exceeds_elapsed)
    show "beacon_elapsed_exceeds timeout wb n"
      if "(timeout + 1) * 1000000000 \<le> beacon_elapsed_ns wb n"
      using a b that by (rule beacon_elapsed_second_later)
  }
qed

section \<open>The recency test\<close>

lemma saturate_less_threshold:
  "saturate d < ethClientRecentBlockThreshold \<longleftrightarrow> d < 300 * 1000000000"
  by (simp add: saturate_def ethClientRecentBlockThreshold_def Second_def maxDuration_def
      minDuration_def)

lemma time_Since_Unix:
  assumes "uint ts < 2 ^ 63 - 62135596800"
  shows "time_Since now (time_Unix (sint ts)) = saturate (block_age_ns now ts)"
proof -
  have lt: "uint ts < 2 ^ 63" using assms by simp
  have s: "sint ts = uint ts" using lt by (rule sint_small)
  have "(0::int) \<le> uint ts" by (rule uint_nonnegative)
  then have i: "int64 (uint ts + unixToInternal) = uint ts + unixToInternal"
    using assms by (intro int64_id) (simp_all add: unixToInternal_def)
  show ?thesis
    unfolding time_Since_def Sub_def time_Now_def time_Unix_def s i
    by (simp add: block_age_ns_def Second_def)
qed

lemma checkProgress_recency:
  assumes "clientToCheck st = Some c" "SyncProgress_of p c = Inr None"
    "LatestBlockTimestamp_of p c = Inr ts"
  shows "checkProgress p st =
     (if time_Since (clk_threshold p) (time_Unix (sint ts)) < ethClientRecentBlockThreshold
      then Return (Inr True) else Continue st)"
  using assms by (simp add: checkProgress_def IsSyncWithinThreshold_def Let_def)

lemma sint_int64:
  fixes w :: "64 word"
  shows "sint w = int64 (uint w)"
proof -
  have "sint w = signed_take_bit 63 (uint w)" using sint_uint[of w] by simp
  also have "\<dots> = take_bit (Suc 63) (uint w + 2 ^ 63) - 2 ^ 63"
    by (rule signed_take_bit_eq_take_bit_shift)
  also have "\<dots> = int64 (uint w)" by (simp add: take_bit_eq_mod int64_def)
  finally show ?thesis .
qed

lemma mod_wraps_once:
  fixes y m :: int
  assumes "m \<le> y" "y < 2 * m"
  shows "y mod m = y - m"
proof -
  have "y mod m = (y - m + m) mod m" by (simp only: diff_add_cancel)
  also have "\<dots> = (y - m) mod m" by (rule mod_add_self2)
  also have "\<dots> = y - m" using assms by (intro mod_pos_pos_trivial) simp_all
  finally show ?thesis .
qed

lemma int64_wraps_down:
  assumes "2 ^ 63 \<le> x" "x < 2 ^ 64 + 2 ^ 63"
  shows "int64 x = x - 2 ^ 64"
proof -
  have a: "(2 ^ 64 :: int) \<le> x + 2 ^ 63" using assms(1) by simp
  have b: "x + 2 ^ 63 < 2 * (2 ^ 64 :: int)" using assms(2) by simp
  have "(x + 2 ^ 63) mod 2 ^ 64 = x + 2 ^ 63 - 2 ^ 64" using a b by (rule mod_wraps_once)
  then have "int64 x = x + 2 ^ 63 - 2 ^ 64 - 2 ^ 63" by (simp only: int64_def)
  then show ?thesis by simp
qed

lemma time_Unix_wrapped:
  fixes ts :: "64 word"
  assumes "2 ^ 63 - 62135596800 \<le> uint ts"
  shows "sec (time_Unix (sint ts)) = uint ts + unixToInternal - 2 ^ 64"
proof (cases "uint ts < 2 ^ 63")
  case True
  then have s: "sint ts = uint ts" by (rule sint_small)
  have "int64 (uint ts + 62135596800) = uint ts + 62135596800 - 2 ^ 64"
    using assms True by (intro int64_wraps_down) simp_all
  then show ?thesis by (simp add: time_Unix_def s unixToInternal_def)
next
  case False
  have lt: "uint ts < 2 ^ 64" using uint_bounded[of ts] by simp
  have "int64 (uint ts) = uint ts - 2 ^ 64"
    using False lt by (intro int64_wraps_down) simp_all
  then have s: "sint ts = uint ts - 2 ^ 64" by (simp add: sint_int64)
  have "int64 (uint ts - 2 ^ 64 + 62135596800) = uint ts - 2 ^ 64 + 62135596800"
    using False lt by (intro int64_id) simp_all
  then show ?thesis by (simp add: time_Unix_def s unixToInternal_def)
qed

lemma time_Since_Unix_wrapped:
  fixes ts :: "64 word"
  assumes "2 ^ 63 - 62135596800 \<le> uint ts"
  shows "time_Since now (time_Unix (sint ts))
     = saturate (block_age_ns now ts + 2 ^ 64 * 1000000000)"
proof -
  have n: "nsec (time_Unix (sint ts)) = 0" "mono (time_Unix (sint ts)) = None"
    by (simp_all add: time_Unix_def)
  show ?thesis
    unfolding time_Since_def Sub_def n time_Unix_wrapped[OF assms]
    by (simp add: time_Now_def block_age_ns_def Second_def algebra_simps)
qed

lemma wrapped_block_is_stale:
  fixes ts :: "64 word"
  assumes "2 ^ 63 - 62135596800 \<le> uint ts" "300 \<le> unix_sec now" "0 \<le> nanos now"
  shows "\<not> time_Since now (time_Unix (sint ts)) < ethClientRecentBlockThreshold"
proof -
  have lt: "uint ts < 2 ^ 64" using uint_bounded[of ts] by simp
  have "300 * 1000000000 \<le> (unix_sec now - uint ts + 2 ^ 64) * 1000000000 + nanos now"
    using assms(2,3) lt by simp
  also have "\<dots> = block_age_ns now ts + 2 ^ 64 * 1000000000"
    by (simp add: block_age_ns_def algebra_simps)
  finally have "\<not> block_age_ns now ts + 2 ^ 64 * 1000000000 < 300 * 1000000000" by simp
  then show ?thesis
    unfolding time_Since_Unix_wrapped[OF assms(1)] saturate_less_threshold .
qed

lemma waitEth_recency_pass:
  assumes "\<not> (0 < timeout \<and> eth_elapsed_exceeds timeout w n)"
    and "refreshStatus (eth_polls w n) st = Continue st'"
    and "clientToCheck st' = Some c"
    and "SyncProgress_of (eth_polls w n) c = Inr None"
    and "LatestBlockTimestamp_of (eth_polls w n) c = Inr ts"
    and "uint ts < 2 ^ 63 - 62135596800"
  shows "waitEth_body timeout (time_Now (clk_start w)) (eth_polls w n) st
     = (if block_age_ns (clk_threshold (eth_polls w n)) ts < 300 * 1000000000
        then Return (Inr True) else Continue st')"
proof -
  have b: "waitEth_body timeout (time_Now (clk_start w)) (eth_polls w n) st
      = checkProgress (eth_polls w n) st'"
    using assms(1,2) by (intro waitEth_body_probe) (simp_all add: eth_elapsed_exceeds_def)
  show ?thesis
    unfolding b checkProgress_recency[OF assms(3,4,5)] time_Since_Unix[OF assms(6)]
      saturate_less_threshold ..
qed

lemma waitEth_wrapped_pass:
  assumes "\<not> (0 < timeout \<and> eth_elapsed_exceeds timeout w n)"
    and "refreshStatus (eth_polls w n) st = Continue st'"
    and "clientToCheck st' = Some c"
    and "SyncProgress_of (eth_polls w n) c = Inr None"
    and "LatestBlockTimestamp_of (eth_polls w n) c = Inr ts"
    and "2 ^ 63 - 62135596800 \<le> uint ts"
    and "300 \<le> unix_sec (clk_threshold (eth_polls w n))"
    and "0 \<le> nanos (clk_threshold (eth_polls w n))"
  shows "waitEth_body timeout (time_Now (clk_start w)) (eth_polls w n) st = Continue st'"
proof -
  have b: "waitEth_body timeout (time_Now (clk_start w)) (eth_polls w n) st
      = checkProgress (eth_polls w n) st'"
    using assms(1,2) by (intro waitEth_body_probe) (simp_all add: eth_elapsed_exceeds_def)
  show ?thesis
    unfolding b checkProgress_recency[OF assms(3,4,5)]
    using wrapped_block_is_stale[OF assms(6,7,8)] by simp
qed

lemma waitEth_pass_result:
  assumes "waitEth_reaches w timeout n = Some st"
  shows "waitEth_body timeout (time_Now (clk_start w)) (eth_polls w n) st = Return r \<Longrightarrow>
           waitEthClientSynced w verbose timeout = Some r \<and> waitEth_reaches w timeout (Suc n) = None"
    and "waitEth_body timeout (time_Now (clk_start w)) (eth_polls w n) st = Continue st' \<Longrightarrow>
           waitEth_reaches w timeout (Suc n) = Some st'"
proof -
  assume b: "waitEth_body timeout (time_Now (clk_start w)) (eth_polls w n) st = Return r"
  from waitEthClientSynced_returns_at[OF assms b] waitEth_reaches_Suc[OF assms] b
  show "waitEthClientSynced w verbose timeout = Some r \<and> waitEth_reaches w timeout (Suc n) = None"
    by simp
next
  assume b: "waitEth_body timeout (time_Now (clk_start w)) (eth_polls w n) st = Continue st'"
  with waitEth_reaches_Suc[OF assms]
  show "waitEth_reaches w timeout (Suc n) = Some st'" by simp
qed

text \<open>
  C8, amended. Let pass \<open>n\<close> of the execution wait be reached, its timeout test not fire, and
  the client it checks answer SyncProgress with no progress object and its latest block
  timestamp \<open>ts\<close>. For \<open>ts\<close> below \<open>2 ^ 63 - 62135596800\<close> the pass returns success exactly
  when the wall clock minus \<open>ts\<close> is less than 300 seconds, which holds for every timestamp
  ahead of the clock; then the wait returns \<^verbatim>\<open>(true, nil)\<close> and there is no further pass.
  When the block is 300 seconds old or older the next pass is reached. For \<open>ts\<close> from
  \<open>2 ^ 63 - 62135596800\<close> on, and a clock at least 300 seconds after the epoch, the pass
  does not return success and the next pass is reached.
\<close>

theorem C8_recency_by_block_age:
  assumes "waitEth_reaches w timeout n = Some st"
    and "\<not> (0 < timeout \<and> eth_elapsed_exceeds timeout w n)"
    and "refreshStatus (eth_polls w n) st = Continue st'"
    and "clientToCheck st' = Some c"
    and "SyncProgress_of (eth_polls w n) c = Inr None"
    and "LatestBlockTimestamp_of (eth_polls w n) c = Inr ts"
  shows "(uint ts < 2 ^ 63 - 62135596800 \<longrightarrow>
            (waitEth_body timeout (time_Now (clk_start w)) (eth_polls w n) st = Return (Inr True)
               \<longleftrightarrow> block_age_ns (clk_threshold (eth_polls w n)) ts < 300 * 1000000000)
          \<and> (block_age_ns (clk_threshold (eth_polls w n)) ts < 300 * 1000000000 \<longrightarrow>
               waitEthClientSynced w verbose timeout = Some (Inr True)
               \<and> waitEth_reaches w timeout (Suc n) = None)
          \<and> (300 * 1000000000 \<le> block_age_ns (clk_threshold (eth_polls w n)) ts \<longrightarrow>
               waitEth_reaches w timeout (Suc n) = Some st'))
       \<and> (2 ^ 63 - 62135596800 \<le> uint ts
            \<and> 300 \<le> unix_sec (clk_threshold (eth_polls w n))
            \<and> 0 \<le> nanos (clk_threshold (eth_polls w n)) \<longrightarrow>
            waitEth_body timeout (time_Now (clk_start w)) (eth_polls w n) st \<noteq> Return (Inr True)
            \<and> waitEth_reaches w timeout (Suc n) = Some st')"
proof (intro conjI impI)
  assume r: "uint ts < 2 ^ 63 - 62135596800"
  note b = waitEth_recency_pass[OF assms(2,3,4,5,6) r]
  show "waitEth_body timeout (time_Now (clk_start w)) (eth_polls w n) st = Return (Inr True)
      \<longleftrightarrow> block_age_ns (clk_threshold (eth_polls w n)) ts < 300 * 1000000000"
    unfolding b by simp
  {
    assume "block_age_ns (clk_threshold (eth_polls w n)) ts < 300 * 1000000000"
    with b have "waitEth_body timeout (time_Now (clk_start w)) (eth_polls w n) st = Return (Inr True)"
      by simp
    from waitEth_pass_result(1)[OF assms(1) this, of verbose]
    show "waitEthClientSynced w verbose timeout = Some (Inr True)"
      and "waitEth_reaches w timeout (Suc n) = None" by simp_all
  }
  {
    assume "300 * 1000000000 \<le> block_age_ns (clk_threshold (eth_polls w n)) ts"
    with b have "waitEth_body timeout (time_Now (clk_start w)) (eth_polls w n) st = Continue st'"
      by simp
    with assms(1) show "waitEth_reaches w timeout (Suc n) = Some st'"
      by (rule waitEth_pass_result(2))
  }
next
  assume h: "2 ^ 63 - 62135596800 \<le> uint ts
      \<and> 300 \<le> unix_sec (clk_threshold (eth_polls w n))
      \<and> 0 \<le> nanos (clk_threshold (eth_polls w n))"
  then have h1: "2 ^ 63 - 62135596800 \<le> uint ts"
    and h2: "300 \<le> unix_sec (clk_threshold (eth_polls w n))"
    and h3: "0 \<le> nanos (clk_threshold (eth_polls w n))" by blast+
  have b: "waitEth_body timeout (time_Now (clk_start w)) (eth_polls w n) st = Continue st'"
    using assms(2,3,4,5,6) h1 h2 h3 by (rule waitEth_wrapped_pass)
  from b show "waitEth_body timeout (time_Now (clk_start w)) (eth_polls w n) st \<noteq> Return (Inr True)"
    by simp
  from assms(1) b show "waitEth_reaches w timeout (Suc n) = Some st'"
    by (rule waitEth_pass_result(2))
qed

section \<open>The beacon wait\<close>

lemma waitBeacon_body_0_continue:
  "waitBeacon_body 0 s p = Continue () \<longleftrightarrow> beacon_still_syncing p"
  by (auto simp: waitBeacon_body_no_timeout beacon_still_syncing_def split: sum.splits)

lemma waitBeacon_body_0_success:
  "waitBeacon_body 0 s p = Return (Inr True) \<longleftrightarrow> beacon_reports_synced p"
  by (auto simp: waitBeacon_body_no_timeout beacon_reports_synced_def split: sum.splits)

lemma waitBeacon_loop_cong:
  assumes "\<forall>i. waitBeacon_body t s (polls i) = waitBeacon_body t' s' (polls' i)"
  shows "waitBeacon_loop t s polls 0 = waitBeacon_loop t' s' polls' 0"
proof -
  have eq: "waitBeacon_body t s (polls i) = waitBeacon_body t' s' (polls' i)" for i
    using assms by (rule spec)
  have "waitBeacon_loop t s polls 0 = Some r \<longleftrightarrow> waitBeacon_loop t' s' polls' 0 = Some r" for r
  proof -
    have "waitBeacon_loop t s polls 0 = Some r \<longleftrightarrow>
        (\<exists>n. (\<forall>j<n. waitBeacon_body t s (polls j) = Continue ())
             \<and> waitBeacon_body t s (polls n) = Return r)"
      by (rule waitBeacon_loop_iff)
    also have "\<dots> \<longleftrightarrow>
        (\<exists>n. (\<forall>j<n. waitBeacon_body t' s' (polls' j) = Continue ())
             \<and> waitBeacon_body t' s' (polls' n) = Return r)"
      by (simp only: eq)
    also have "\<dots> \<longleftrightarrow> waitBeacon_loop t' s' polls' 0 = Some r"
      by (rule waitBeacon_loop_iff[symmetric])
    finally show ?thesis .
  qed
  then have "\<And>r. waitBeacon_loop t s polls 0 = Some r \<Longrightarrow> waitBeacon_loop t' s' polls' 0 = Some r"
    and "\<And>r. waitBeacon_loop t' s' polls' 0 = Some r \<Longrightarrow> waitBeacon_loop t s polls 0 = Some r"
    by blast+
  then show ?thesis
    by (metis option.exhaust)
qed

text \<open>
  C10. With \<open>timeout = 0\<close> the beacon wait returns \<^verbatim>\<open>(true, nil)\<close> exactly when the
  beacon client is available and some poll of GetSyncStatus answers \<^verbatim>\<open>Syncing = false\<close>
  after polls that all answered \<^verbatim>\<open>Syncing = true\<close>. Its result is a function of the
  answers of GetBeaconClient and GetSyncStatus alone: two worlds that agree on them give
  the same result, whatever their clocks and the \<open>verbose\<close> flag.
\<close>

theorem C10_beacon_wait:
  "(waitBeaconClientSynced wb verbose 0 = Some (Inr True) \<longleftrightarrow>
      GetBeaconClient wb = Inr ()
      \<and> (\<exists>n. (\<forall>j<n. beacon_still_syncing (beacon_polls wb j))
            \<and> beacon_reports_synced (beacon_polls wb n)))
   \<and> (GetBeaconClient wb = GetBeaconClient wb'
        \<and> (\<forall>i. GetSyncStatus (beacon_polls wb i) = GetSyncStatus (beacon_polls wb' i)) \<longrightarrow>
      waitBeaconClientSynced wb verbose 0 = waitBeaconClientSynced wb' verbose' 0)"
proof (intro conjI impI)
  show "waitBeaconClientSynced wb verbose 0 = Some (Inr True) \<longleftrightarrow>
      GetBeaconClient wb = Inr ()
      \<and> (\<exists>n. (\<forall>j<n. beacon_still_syncing (beacon_polls wb j))
            \<and> beacon_reports_synced (beacon_polls wb n))"
  proof (cases "GetBeaconClient wb")
    case (Inl err)
    then show ?thesis by (simp add: waitBeaconClientSynced_def)
  next
    case (Inr bc)
    then show ?thesis
      by (simp add: waitBeaconClientSynced_def waitBeacon_loop_iff waitBeacon_body_0_continue
          waitBeacon_body_0_success)
  qed
next
  assume h: "GetBeaconClient wb = GetBeaconClient wb'
      \<and> (\<forall>i. GetSyncStatus (beacon_polls wb i) = GetSyncStatus (beacon_polls wb' i))"
  then have "\<forall>i. waitBeacon_body 0 (Unix (time_Now (clk_start_b wb))) (beacon_polls wb i)
      = waitBeacon_body 0 (Unix (time_Now (clk_start_b wb'))) (beacon_polls wb' i)"
    by (simp add: waitBeacon_body_no_timeout)
  then have "waitBeacon_loop 0 (Unix (time_Now (clk_start_b wb))) (beacon_polls wb) 0
      = waitBeacon_loop 0 (Unix (time_Now (clk_start_b wb'))) (beacon_polls wb') 0"
    by (rule waitBeacon_loop_cong)
  with h show "waitBeaconClientSynced wb verbose 0 = waitBeaconClientSynced wb' verbose' 0"
    by (cases "GetBeaconClient wb'") (simp_all add: waitBeaconClientSynced_def)
qed

section \<open>The example worlds\<close>

lemma primary_syncing_waits: "waits_on_a_client primary_syncing"
  by (simp add: waits_on_a_client_def checkExecutionClientStatus_def primary_syncing_def)

lemma eth_world_of_starts: "eth_starts_syncing (eth_world_of pr la)"
  by (simp add: eth_starts_syncing_def eth_world_of_def primary_syncing_waits)

lemma eth_world_of_still:
  "reports_progress (pr i) \<Longrightarrow> eth_still_syncing (eth_polls (eth_world_of pr la) i)"
  by (simp add: eth_still_syncing_def eth_world_of_def primary_syncing_waits)

lemma eth_world_of_answers:
  "SyncProgress_of (eth_polls (eth_world_of pr la) i) c = pr i"
  "LatestBlockTimestamp_of (eth_polls (eth_world_of pr la) i) c = la i"
  "clk_threshold (eth_polls (eth_world_of pr la) i) = clock_at (5 * int i)"
  by (simp_all add: eth_world_of_def)

lemma eth_world_of_elapsed:
  assumes "i \<le> 1000"
  shows "eth_elapsed_exceeds t (eth_world_of pr la) i \<longleftrightarrow> t < 5 * int i"
proof -
  have "time_Since (clock_at (5 * int i)) (time_Now (clock_at 0)) = saturate ((5 * int i) * Second)"
    by (simp add: time_Since_def Sub_def time_Now_def clock_at_def Second_def)
  also have "\<dots> = (5 * int i) * Second"
    using assms by (intro saturate_small) simp_all
  finally have "Seconds (time_Since (clock_at (5 * int i)) (time_Now (clock_at 0)))
      = Seconds ((5 * int i) * Second)"
    by (simp only:)
  also have "\<dots> = of_int (5 * int i)"
    using assms by (intro Seconds_whole_any) simp_all
  finally have s: "Seconds (time_Since (clock_at (5 * int i)) (time_Now (clock_at 0)))
      = of_int (5 * int i)" .
  have e: "eth_elapsed_exceeds t (eth_world_of pr la) i
      \<longleftrightarrow> float64 (of_int t) < of_int (5 * int i)"
    unfolding s[symmetric] by (simp add: eth_elapsed_exceeds_def eth_world_of_def)
  show ?thesis
  proof (cases "t < 5 * int i")
    case True
    then have "t \<le> 5 * int i - 1" by simp
    then have "(of_int t :: rat) \<le> of_int (5 * int i - 1)" by (simp only: of_int_le_iff)
    then have "float64 (of_int t) \<le> of_int (5 * int i - 1)"
      using assms by (intro float64_le_int) simp_all
    also have "\<dots> < of_int (5 * int i)" by simp
    finally show ?thesis using True e by simp
  next
    case False
    then have "5 * int i \<le> t" by simp
    then have "(of_int (5 * int i) :: rat) \<le> of_int t" by (simp only: of_int_le_iff)
    then have "of_int (5 * int i) \<le> float64 (of_int t)"
      using assms by (intro float64_ge_int) simp_all
    then show ?thesis using False e by simp
  qed
qed

lemma Unix_clock_at:
  assumes "0 \<le> s" "s \<le> 5000"
  shows "Unix (time_Now (clock_at s)) = 1700000000 + s"
proof -
  have "int64 (1700000000 + s) = 1700000000 + s"
    using assms by (intro int64_id) simp_all
  then show ?thesis by (simp add: Unix_def time_Now_def clock_at_def)
qed

lemma beacon_world_of_elapsed:
  assumes "i \<le> 1000"
  shows "beacon_elapsed_exceeds t (beacon_world_of status) i \<longleftrightarrow> t < 5 * int i"
proof -
  have a: "Unix (time_Now (clock_at (5 * int i))) = 1700000000 + 5 * int i"
    using assms by (intro Unix_clock_at) simp_all
  have b: "Unix (time_Now (clock_at 0)) = 1700000000"
    using Unix_clock_at[of 0] by simp
  have c: "int64 (5 * int i) = 5 * int i"
    using assms by (intro int64_id) simp_all
  show ?thesis
    by (simp add: beacon_elapsed_exceeds_def beacon_world_of_def a b c)
qed

lemma beacon_world_of_answers:
  "GetBeaconClient (beacon_world_of status) = Inr ()"
  "GetSyncStatus (beacon_polls (beacon_world_of status) i) = status i"
  by (simp_all add: beacon_world_of_def)

lemma clock_ns_wall: "wall_ns (clock_ns t) = 1700000000000000000 + t"
proof -
  have "t div 1000000000 * 1000000000 + t mod 1000000000 = t" by simp
  then show ?thesis by (simp add: wall_ns_def clock_ns_def algebra_simps)
qed

lemma clock_ns_ok:
  assumes "0 \<le> t" "t < 2 ^ 62"
  shows "wall_clock_ok (clock_ns t)"
proof -
  have "0 \<le> t div 1000000000" using assms(1) by (simp add: pos_imp_zdiv_nonneg_iff)
  moreover have "t div 1000000000 \<le> t div 1" using assms(1) by (intro zdiv_mono2) simp_all
  ultimately show ?thesis using assms(2) by (simp add: wall_clock_ok_def clock_ns_def)
qed

lemma clock_at_ok:
  assumes "0 \<le> s" "s \<le> 5000"
  shows "wall_clock_ok (clock_at s)"
  using assms by (simp add: wall_clock_ok_def clock_at_def)

lemma beacon_world_late_passes:
  "GetBeaconClient beacon_world_late = Inr ()"
  "beacon_still_syncing (beacon_polls beacon_world_late i)"
  "clk_start_b beacon_world_late = clock_ns 900000000"
  "clk_now (beacon_polls beacon_world_late i) = clock_ns (900000000 + 5050000000 * int i)"
  by (simp_all add: beacon_world_late_def beacon_still_syncing_def always_syncing_def)

lemma beacon_world_late_elapsed:
  "beacon_elapsed_ns beacon_world_late i = 5050000000 * int i"
  by (simp add: beacon_elapsed_ns_def beacon_world_late_passes clock_ns_wall)

lemma beacon_world_late_not_exceeded:
  assumes "i \<le> 1"
  shows "\<not> beacon_elapsed_exceeds 5 beacon_world_late i"
proof -
  have a: "wall_clock_ok (clk_start_b beacon_world_late)"
    unfolding beacon_world_late_passes by (intro clock_ns_ok) simp_all
  have b: "wall_clock_ok (clk_now (beacon_polls beacon_world_late i))"
    unfolding beacon_world_late_passes using assms by (intro clock_ns_ok) simp_all
  from assms have "i = 0 \<or> i = 1" by auto
  then show ?thesis
    unfolding beacon_elapsed_exceeds_seconds[OF a b] beacon_world_late_passes
    by (auto simp: clock_ns_def)
qed

lemma eth_world_late_passes:
  "eth_starts_syncing eth_world_late"
  "eth_still_syncing (eth_polls eth_world_late i)"
  "eth_elapsed_ns eth_world_late i = 5000000000 * int i + 1"
  by (simp_all add: eth_world_late_def eth_starts_syncing_def eth_still_syncing_def
      primary_syncing_waits always_progress_def reports_progress_def eth_elapsed_ns_def
      clock_ns_def)

lemma Seconds_rounds_down: "Seconds 16777220000000001 = 16777220"
  by code_simp

lemma eth_world_late_not_exceeded:
  assumes "i \<le> 3355444"
  shows "\<not> eth_elapsed_exceeds 16777220 eth_world_late i"
proof (cases "i = 3355444")
  case True
  have "saturate 16777220000000001 = 16777220000000001"
    by (simp add: saturate_def maxDuration_def minDuration_def)
  moreover have "float64 (of_int 16777220) = of_int 16777220"
    by (intro float64_of_int) simp
  ultimately show ?thesis
    unfolding True
    by (simp add: eth_elapsed_exceeds_def time_Since_start eth_world_late_passes
        Seconds_rounds_down)
next
  case False
  with assms have "int i \<le> 3355443" by simp
  then have "\<not> 16777220 * 1000000000 < eth_elapsed_ns eth_world_late i"
    by (simp add: eth_world_late_passes)
  then show ?thesis using eth_exceeds_elapsed[of 16777220 eth_world_late i] by auto
qed

section \<open>The claims at the example worlds\<close>

text \<open>
  The claim C5 as stated fails at the resolution of the two timeout tests. In the beacon
  wait with a timeout of 5 seconds, 5.05 seconds have elapsed on the wall clock at pass 1
  and the client is still syncing, but the whole seconds read by \<^verbatim>\<open>Unix()\<close> differ by 5
  only: the test does not fire and pass 2 is reached. In the execution wait with a timeout
  of 16777220 seconds, 16777220 seconds and one nanosecond have elapsed at pass 3355444
  and the client is still syncing, but \<^verbatim>\<open>Seconds()\<close> rounds the elapsed time to
  16777220: the test does not fire and the next pass is reached.
\<close>

theorem C5_counterexample:
  "beacon_elapsed_ns beacon_world_late 1 = 5050000000
   \<and> beacon_still_syncing (beacon_polls beacon_world_late 1)
   \<and> waitBeacon_reaches beacon_world_late 5 2
   \<and> eth_elapsed_ns eth_world_late 3355444 = 16777220000000001
   \<and> eth_still_syncing (eth_polls eth_world_late 3355444)
   \<and> waitEth_reaches eth_world_late 16777220 3355445 \<noteq> None"
proof (intro conjI)
  show "beacon_elapsed_ns beacon_world_late 1 = 5050000000"
    by (simp add: beacon_world_late_elapsed)
  show "beacon_still_syncing (beacon_polls beacon_world_late 1)"
    by (rule beacon_world_late_passes)
  have "\<forall>i<2. beacon_still_syncing (beacon_polls beacon_world_late i)
          \<and> \<not> (0 < (5::int) \<and> beacon_elapsed_exceeds 5 beacon_world_late i)"
    by (simp add: beacon_world_late_passes beacon_world_late_not_exceeded)
  with beacon_world_late_passes(1) show "waitBeacon_reaches beacon_world_late 5 2"
    by (rule waitBeacon_reaches_syncing)
  show "eth_elapsed_ns eth_world_late 3355444 = 16777220000000001"
    by (simp add: eth_world_late_passes)
  show "eth_still_syncing (eth_polls eth_world_late 3355444)"
    by (rule eth_world_late_passes)
  have "\<forall>i<3355445. eth_still_syncing (eth_polls eth_world_late i)
          \<and> \<not> (0 < (16777220::int) \<and> eth_elapsed_exceeds 16777220 eth_world_late i)"
    by (simp add: eth_world_late_passes eth_world_late_not_exceeded)
  from waitEth_reaches_syncing[OF eth_world_late_passes(1) this]
  show "waitEth_reaches eth_world_late 16777220 3355445 \<noteq> None" by auto
qed

theorem C5_timeout_at_reached_pass_witness:
  "waitEthClientSynced (eth_world_of always_progress (latest_at 0)) False 0 = None
   \<and> waitBeaconClientSynced (beacon_world_of always_syncing) False 0 = None
   \<and> waitEthClientSynced (eth_world_of always_progress (latest_at 0)) False EthClientSyncTimeout
       = Some (Inr False)
   \<and> waitEth_reaches (eth_world_of always_progress (latest_at 0)) EthClientSyncTimeout 4 \<noteq> None
   \<and> waitEth_reaches (eth_world_of always_progress (latest_at 0)) EthClientSyncTimeout (Suc 4) = None
   \<and> waitBeaconClientSynced (beacon_world_of always_syncing) False BeaconClientSyncTimeout
       = Some (Inr False)
   \<and> waitBeacon_reaches (beacon_world_of always_syncing) BeaconClientSyncTimeout 4
   \<and> \<not> waitBeacon_reaches (beacon_world_of always_syncing) BeaconClientSyncTimeout (Suc 4)
   \<and> 16 * 1000000000 < eth_elapsed_ns (eth_world_of always_progress (latest_at 0)) 4
   \<and> 16 * 1000000000 < beacon_elapsed_ns (beacon_world_of always_syncing) 4"
proof -
  let ?w = "eth_world_of always_progress (latest_at 0)"
  let ?wb = "beacon_world_of always_syncing"
  have e1: "eth_starts_syncing ?w" by (rule eth_world_of_starts)
  have e2: "\<forall>i. eth_still_syncing (eth_polls ?w i)"
    by (simp add: eth_world_of_still always_progress_def reports_progress_def)
  have e3: "\<forall>i<4. eth_still_syncing (eth_polls ?w i) \<and> \<not> eth_elapsed_exceeds 16 ?w i"
    using e2 by (simp add: eth_world_of_elapsed)
  have e4: "eth_elapsed_exceeds 16 ?w 4" by (simp add: eth_world_of_elapsed)
  have b1: "GetBeaconClient ?wb = Inr ()" by (rule beacon_world_of_answers)
  have b2: "\<forall>i. beacon_still_syncing (beacon_polls ?wb i)"
    by (simp add: beacon_still_syncing_def beacon_world_of_answers always_syncing_def)
  have b3: "\<forall>i<4. beacon_still_syncing (beacon_polls ?wb i) \<and> \<not> beacon_elapsed_exceeds 16 ?wb i"
    using b2 by (simp add: beacon_world_of_elapsed)
  have b4: "beacon_elapsed_exceeds 16 ?wb 4" by (simp add: beacon_world_of_elapsed)
  have b5: "wall_clock_ok (clk_start_b ?wb)"
    by (simp add: beacon_world_of_def clock_at_ok)
  have b6: "wall_clock_ok (clk_now (beacon_polls ?wb 4))"
    by (simp add: beacon_world_of_def clock_at_ok)
  have t: "(0::int) < 16" by simp
  note T = C5_timeout_at_reached_pass[of ?w False ?wb 16 4 0]
  from T e1 e2 have c1: "waitEthClientSynced ?w False 0 = None" by blast
  from T b1 b2 have c2: "waitBeaconClientSynced ?wb False 0 = None" by blast
  from T t e1 e3 e4 have c3: "waitEthClientSynced ?w False 16 = Some (Inr False)
      \<and> waitEth_reaches ?w 16 4 \<noteq> None \<and> waitEth_reaches ?w 16 (Suc 4) = None" by blast
  from T t b1 b3 b4 have c4: "waitBeaconClientSynced ?wb False 16 = Some (Inr False)
      \<and> waitBeacon_reaches ?wb 16 4 \<and> \<not> waitBeacon_reaches ?wb 16 (Suc 4)" by blast
  from T t e4 have c5: "16 * 1000000000 < eth_elapsed_ns ?w 4" by blast
  from T b4 b5 b6 have c6: "16 * 1000000000 < beacon_elapsed_ns ?wb 4" by blast
  from c1 c2 c3 c4 c5 c6 show ?thesis
    unfolding EthClientSyncTimeout_def BeaconClientSyncTimeout_def by blast
qed

theorem C6_primary_first_witness:
  "checkExecutionClientStatus primary_synced_fallback_down = Inr (True, None)
   \<and> checkExecutionClientStatus
       (primary_synced_fallback_down\<lparr>fallbackReady := True,
          mgrStatus := (mgrStatus primary_synced_fallback_down)
            \<lparr>FallbackEnabled := False,
             FallbackEcStatus := \<lparr>IsWorking = True, SyncProgress = 1, Error = []\<rparr>\<rparr>\<rparr>)
       = Inr (True, None)"
proof -
  have "primaryReady primary_synced_fallback_down"
    by (simp add: primary_synced_fallback_down_def)
  with C6_primary_first[where ecMgr = primary_synced_fallback_down and fr = True and fe = False
      and fs = "\<lparr>IsWorking = True, SyncProgress = 1, Error = []\<rparr>"]
  show ?thesis by blast
qed

lemma example_pass_reached:
  assumes "\<forall>i<n. reports_progress (pr i)" "n \<le> 3"
  shows "\<exists>st st' c. waitEth_reaches (eth_world_of pr la) 16 n = Some st
          \<and> refreshStatus (eth_polls (eth_world_of pr la) n) st = Continue st'
          \<and> clientToCheck st' = Some c"
proof -
  have "\<forall>i<n. eth_still_syncing (eth_polls (eth_world_of pr la) i)
          \<and> \<not> (0 < (16::int) \<and> eth_elapsed_exceeds 16 (eth_world_of pr la) i)"
    using assms by (auto simp: eth_world_of_still eth_world_of_elapsed)
  from waitEth_reaches_syncing[OF eth_world_of_starts this] obtain st where
    st: "waitEth_reaches (eth_world_of pr la) 16 n = Some st" and c: "clientToCheck st \<noteq> None"
    by blast
  have "waits_on_a_client (refresh_status (eth_polls (eth_world_of pr la) n))"
    by (simp add: eth_world_of_def primary_syncing_waits)
  from refreshStatus_syncing[OF this c] st show ?thesis by fastforce
qed

theorem C7_probe_errors_propagate_witness:
  "waitEthClientSynced (eth_world_of (progress_fails_at 2) (latest_at 0)) False 16
     = Some (Inl (ClientError ''connection reset''))
   \<and> waitEthClientSynced (eth_world_of (progress_nil_at 2) latest_fails) False 16
     = Some (Inl (ClientError ''connection reset''))
   \<and> waitBeaconClientSynced (beacon_world_of (status_fails_at 2)) False 16
     = Some (Inl (ClientError ''connection reset''))"
proof (intro conjI)
  let ?w = "eth_world_of (progress_fails_at 2) (latest_at 0)"
  have "\<forall>i<2. reports_progress (progress_fails_at 2 i)"
    by (simp add: progress_fails_at_def reports_progress_def)
  from example_pass_reached[OF this, of "latest_at 0"] obtain st st' c where
    a: "waitEth_reaches ?w 16 2 = Some st"
    and b: "refreshStatus (eth_polls ?w 2) st = Continue st'"
    and c: "clientToCheck st' = Some c" by auto
  have d: "\<not> (0 < (16::int) \<and> eth_elapsed_exceeds 16 ?w 2)" by (simp add: eth_world_of_elapsed)
  have e: "SyncProgress_of (eth_polls ?w 2) c = Inl (ClientError ''connection reset'')"
    by (simp add: eth_world_of_answers progress_fails_at_def)
  from C7_probe_errors_propagate[of ?w 16 2 st st' c "ClientError ''connection reset''" False] a b c d e
  show "waitEthClientSynced ?w False 16 = Some (Inl (ClientError ''connection reset''))"
    by blast
next
  let ?w = "eth_world_of (progress_nil_at 2) latest_fails"
  have "\<forall>i<2. reports_progress (progress_nil_at 2 i)"
    by (simp add: progress_nil_at_def reports_progress_def)
  from example_pass_reached[OF this, of latest_fails] obtain st st' c where
    a: "waitEth_reaches ?w 16 2 = Some st"
    and b: "refreshStatus (eth_polls ?w 2) st = Continue st'"
    and c: "clientToCheck st' = Some c" by auto
  have d: "\<not> (0 < (16::int) \<and> eth_elapsed_exceeds 16 ?w 2)" by (simp add: eth_world_of_elapsed)
  have e: "SyncProgress_of (eth_polls ?w 2) c = Inr None"
    by (simp add: eth_world_of_answers progress_nil_at_def)
  have f: "LatestBlockTimestamp_of (eth_polls ?w 2) c = Inl (ClientError ''connection reset'')"
    by (simp add: eth_world_of_answers latest_fails_def)
  from C7_probe_errors_propagate[of ?w 16 2 st st' c "ClientError ''connection reset''" False] a b c d e f
  show "waitEthClientSynced ?w False 16 = Some (Inl (ClientError ''connection reset''))"
    by blast
next
  let ?wb = "beacon_world_of (status_fails_at 2)"
  have "\<forall>i<2. beacon_still_syncing (beacon_polls ?wb i)
          \<and> \<not> (0 < (16::int) \<and> beacon_elapsed_exceeds 16 ?wb i)"
    by (auto simp: beacon_still_syncing_def beacon_world_of_answers status_fails_at_def
        beacon_world_of_elapsed)
  with beacon_world_of_answers(1) have a: "waitBeacon_reaches ?wb 16 2"
    by (rule waitBeacon_reaches_syncing)
  have d: "\<not> (0 < (16::int) \<and> beacon_elapsed_exceeds 16 ?wb 2)" by (simp add: beacon_world_of_elapsed)
  have e: "GetSyncStatus (beacon_polls ?wb 2) = Inl (ClientError ''connection reset'')"
    by (simp add: beacon_world_of_answers status_fails_at_def)
  from C7_probe_errors_propagate[where wb = ?wb and timeout = 16 and n = 2
      and e = "ClientError ''connection reset''" and verbose = False] a d e
  show "waitBeaconClientSynced ?wb False 16 = Some (Inl (ClientError ''connection reset''))"
    by blast
qed

lemma example_recency_pass:
  assumes "uint ts < 2 ^ 63 - 62135596800"
  shows "\<exists>st st'. waitEth_reaches (eth_world_of (progress_nil_at 1) (latest_at ts)) 16 1 = Some st
          \<and> waitEth_body 16 (time_Now (clk_start (eth_world_of (progress_nil_at 1) (latest_at ts))))
               (eth_polls (eth_world_of (progress_nil_at 1) (latest_at ts)) 1) st
             = (if block_age_ns (clock_at 5) ts < 300 * 1000000000
                then Return (Inr True) else Continue st')"
proof -
  let ?w = "eth_world_of (progress_nil_at 1) (latest_at ts)"
  have "\<forall>i<1. reports_progress (progress_nil_at 1 i)"
    by (simp add: progress_nil_at_def reports_progress_def)
  from example_pass_reached[OF this, of "latest_at ts"] obtain st st' c where
    a: "waitEth_reaches ?w 16 1 = Some st"
    and b: "refreshStatus (eth_polls ?w 1) st = Continue st'"
    and c: "clientToCheck st' = Some c" by auto
  have d: "\<not> (0 < (16::int) \<and> eth_elapsed_exceeds 16 ?w 1)" by (simp add: eth_world_of_elapsed)
  have e: "SyncProgress_of (eth_polls ?w 1) c = Inr None"
    by (simp add: eth_world_of_answers progress_nil_at_def)
  have f: "LatestBlockTimestamp_of (eth_polls ?w 1) c = Inr ts"
    by (simp add: eth_world_of_answers latest_at_def)
  have g: "clk_threshold (eth_polls ?w 1) = clock_at 5" by (simp add: eth_world_of_answers)
  from waitEth_recency_pass[OF d b c e f assms] a show ?thesis unfolding g by blast
qed

text \<open>
  The claim C8 as stated fails for a timestamp ahead of the wall clock. At pass 1 the
  clock reads Unix time 1700000005 and the client, without a progress object, answers a
  latest block stamped 1731536000, 31535995 seconds (365 days) ahead of the clock and so
  not within five minutes of it; the wait returns \<^verbatim>\<open>(true, nil)\<close>.
\<close>

theorem C8_counterexample:
  "waitEthClientSynced (eth_world_of (progress_nil_at 1) (latest_at 1731536000)) False 16
     = Some (Inr True)
   \<and> clk_threshold (eth_polls (eth_world_of (progress_nil_at 1) (latest_at 1731536000)) 1)
       = clock_at 5
   \<and> block_age_ns (clock_at 5) 1731536000 = - 31535995 * 1000000000"
proof (intro conjI)
  let ?w = "eth_world_of (progress_nil_at 1) (latest_at 1731536000)"
  have r: "uint (1731536000 :: 64 word) < 2 ^ 63 - 62135596800" by simp
  have age: "block_age_ns (clock_at 5) 1731536000 = - 31535995 * 1000000000"
    by (simp add: block_age_ns_def clock_at_def)
  from example_recency_pass[OF r] obtain st st' where
    a: "waitEth_reaches ?w 16 1 = Some st"
    and b: "waitEth_body 16 (time_Now (clk_start ?w)) (eth_polls ?w 1) st
        = (if block_age_ns (clock_at 5) 1731536000 < 300 * 1000000000
           then Return (Inr True) else Continue st')" by blast
  have "waitEth_body 16 (time_Now (clk_start ?w)) (eth_polls ?w 1) st = Return (Inr True)"
    unfolding b age by simp
  from waitEth_pass_result(1)[OF a this, of False]
  show "waitEthClientSynced ?w False 16 = Some (Inr True)" by simp
  show "clk_threshold (eth_polls ?w 1) = clock_at 5" by (simp add: eth_world_of_answers)
  show "block_age_ns (clock_at 5) 1731536000 = - 31535995 * 1000000000" by (rule age)
qed

theorem C8_recency_by_block_age_witness:
  "waitEthClientSynced (eth_world_of (progress_nil_at 1) (latest_at 1699999900)) False 16
     = Some (Inr True)
   \<and> waitEth_reaches (eth_world_of (progress_nil_at 1) (latest_at 1699999705)) 16 (Suc 1) \<noteq> None
   \<and> waitEth_reaches (eth_world_of (progress_nil_at 1) (latest_at (2 ^ 63))) 16 (Suc 1) \<noteq> None"
proof (intro conjI)
  let ?w = "eth_world_of (progress_nil_at 1) (latest_at 1699999900)"
  have "\<forall>i<1. reports_progress (progress_nil_at 1 i)"
    by (simp add: progress_nil_at_def reports_progress_def)
  from example_pass_reached[OF this, of "latest_at 1699999900"] obtain st st' c where
    a: "waitEth_reaches ?w 16 1 = Some st"
    and b: "refreshStatus (eth_polls ?w 1) st = Continue st'"
    and c: "clientToCheck st' = Some c" by auto
  have d: "\<not> (0 < (16::int) \<and> eth_elapsed_exceeds 16 ?w 1)" by (simp add: eth_world_of_elapsed)
  have e: "SyncProgress_of (eth_polls ?w 1) c = Inr None"
    by (simp add: eth_world_of_answers progress_nil_at_def)
  have f: "LatestBlockTimestamp_of (eth_polls ?w 1) c = Inr 1699999900"
    by (simp add: eth_world_of_answers latest_at_def)
  have g: "uint (1699999900 :: 64 word) < 2 ^ 63 - 62135596800" by simp
  have h: "block_age_ns (clk_threshold (eth_polls ?w 1)) 1699999900 < 300 * 1000000000"
    by (simp add: block_age_ns_def eth_world_of_answers clock_at_def)
  from C8_recency_by_block_age[OF a d b c e f, of False] g h
  show "waitEthClientSynced ?w False 16 = Some (Inr True)" by blast
next
  let ?w = "eth_world_of (progress_nil_at 1) (latest_at 1699999705)"
  have "\<forall>i<1. reports_progress (progress_nil_at 1 i)"
    by (simp add: progress_nil_at_def reports_progress_def)
  from example_pass_reached[OF this, of "latest_at 1699999705"] obtain st st' c where
    a: "waitEth_reaches ?w 16 1 = Some st"
    and b: "refreshStatus (eth_polls ?w 1) st = Continue st'"
    and c: "clientToCheck st' = Some c" by auto
  have d: "\<not> (0 < (16::int) \<and> eth_elapsed_exceeds 16 ?w 1)" by (simp add: eth_world_of_elapsed)
  have e: "SyncProgress_of (eth_polls ?w 1) c = Inr None"
    by (simp add: eth_world_of_answers progress_nil_at_def)
  have f: "LatestBlockTimestamp_of (eth_polls ?w 1) c = Inr 1699999705"
    by (simp add: eth_world_of_answers latest_at_def)
  have g: "uint (1699999705 :: 64 word) < 2 ^ 63 - 62135596800" by simp
  have h: "300 * 1000000000 \<le> block_age_ns (clk_threshold (eth_polls ?w 1)) 1699999705"
    by (simp add: block_age_ns_def eth_world_of_answers clock_at_def)
  from C8_recency_by_block_age[OF a d b c e f, of False] g h
  have "waitEth_reaches ?w 16 (Suc 1) = Some st'" by blast
  then show "waitEth_reaches ?w 16 (Suc 1) \<noteq> None" by simp
next
  let ?w = "eth_world_of (progress_nil_at 1) (latest_at (2 ^ 63))"
  have "\<forall>i<1. reports_progress (progress_nil_at 1 i)"
    by (simp add: progress_nil_at_def reports_progress_def)
  from example_pass_reached[OF this, of "latest_at (2 ^ 63)"] obtain st st' c where
    a: "waitEth_reaches ?w 16 1 = Some st"
    and b: "refreshStatus (eth_polls ?w 1) st = Continue st'"
    and c: "clientToCheck st' = Some c" by auto
  have d: "\<not> (0 < (16::int) \<and> eth_elapsed_exceeds 16 ?w 1)" by (simp add: eth_world_of_elapsed)
  have e: "SyncProgress_of (eth_polls ?w 1) c = Inr None"
    by (simp add: eth_world_of_answers progress_nil_at_def)
  have f: "LatestBlockTimestamp_of (eth_polls ?w 1) c = Inr (2 ^ 63)"
    by (simp add: eth_world_of_answers latest_at_def)
  have g: "2 ^ 63 - 62135596800 \<le> uint (2 ^ 63 :: 64 word)" by simp
  have h: "300 \<le> unix_sec (clk_threshold (eth_polls ?w 1))
      \<and> 0 \<le> nanos (clk_threshold (eth_polls ?w 1))"
    by (simp add: eth_world_of_answers clock_at_def)
  from C8_recency_by_block_age[OF a d b c e f, of False] g h
  have "waitEth_reaches ?w 16 (Suc 1) = Some st'" by blast
  then show "waitEth_reaches ?w 16 (Suc 1) \<noteq> None" by simp
qed

theorem C10_beacon_wait_witness:
  "waitBeaconClientSynced (beacon_world_of (synced_from 3)) False 0 = Some (Inr True)
   \<and> waitBeaconClientSynced (beacon_world_of (synced_from 3)) False 0
       = waitBeaconClientSynced ((beacon_world_of (synced_from 3))\<lparr>clk_start_b := clock_at 77\<rparr>) True 0"
proof -
  let ?wb = "beacon_world_of (synced_from 3)"
  have a: "GetBeaconClient ?wb = Inr ()" by (rule beacon_world_of_answers)
  have b: "\<forall>j<3. beacon_still_syncing (beacon_polls ?wb j)"
    by (simp add: beacon_still_syncing_def beacon_world_of_answers synced_from_def)
  have c: "beacon_reports_synced (beacon_polls ?wb 3)"
    by (simp add: beacon_reports_synced_def beacon_world_of_answers synced_from_def)
  have d: "GetBeaconClient ?wb = GetBeaconClient (?wb\<lparr>clk_start_b := clock_at 77\<rparr>)
      \<and> (\<forall>i. GetSyncStatus (beacon_polls ?wb i)
             = GetSyncStatus (beacon_polls (?wb\<lparr>clk_start_b := clock_at 77\<rparr>) i))"
    by simp
  from C10_beacon_wait[of ?wb False "?wb\<lparr>clk_start_b := clock_at 77\<rparr>" True] a b c d
  show ?thesis by blast
qed

end
